theory Spec2Isabelle
  imports Main "HOL-Library.AList"
begin

section \<open>The Jest reporter of currents-reporter\<close>

text \<open>
  A shallow embedding of \<^verbatim>\<open>packages/jest-reporter/src/reporter.ts\<close>: the class
  \<^verbatim>\<open>CustomReporter\<close>, its lifecycle handlers and the status functions below it.

  Conventions of the embedding.
  \<^item> A JavaScript object used as a dictionary and never enumerated is a map; the one that
    is enumerated (\<^verbatim>\<open>testCaseList\<close>, through \<^verbatim>\<open>Object.values\<close>) is an association
    list in insertion order. Every key of it contains a colon, so none is an array index
    and insertion order is the enumeration order.
  \<^item> \<^verbatim>\<open>undefined\<close> is \<open>None\<close>. Reading a property of \<^verbatim>\<open>undefined\<close> throws a
    TypeError, which is a value of the handler's result.
  \<^item> Instants (milliseconds) are integers. \<^verbatim>\<open>new Date(t).toISOString()\<close> is kept as the
    instant \<open>t\<close> itself.
  \<^item> The helpers imported from \<^verbatim>\<open>./lib\<close> are not part of the sources at hand. What
    \<^verbatim>\<open>testToSpecName\<close>, \<^verbatim>\<open>getProjectId\<close>, \<^verbatim>\<open>getTestCaseId\<close> and
    \<^verbatim>\<open>getTestCaseFullTitle\<close> return for an argument is carried as a field of that
    argument.
\<close>

subsection \<open>Runner data\<close>

text \<open>\<^verbatim>\<open>Test\<close>: the spec name, the project id and \<^verbatim>\<open>context.config.rootDir\<close>.\<close>

record Test =
  t_specName :: string
  t_projectId :: string
  t_rootDir :: string

text \<open>
  \<^verbatim>\<open>Circus.TestCaseStartInfo\<close>. \<open>i_clock\<close> is what \<^verbatim>\<open>new Date().getTime()\<close>
  reads when the handler runs. \<open>i_mode\<close> is \<^verbatim>\<open>Circus.BlockMode\<close>: absent, or one of
  \<^verbatim>\<open>skip\<close>, \<^verbatim>\<open>only\<close>, \<^verbatim>\<open>todo\<close>.
\<close>

record TestCaseStartInfo =
  i_testId :: string
  i_fullTitle :: "string list"
  i_startedAt :: "int option"
  i_clock :: int
  i_mode :: "string option"

text \<open>\<^verbatim>\<open>TestCaseResult\<close>. The status is the string the runner sent.\<close>

record TestCaseResult =
  r_testId :: string
  r_fullTitle :: "string list"
  r_status :: string
  r_failureMessages :: "string list option"
  r_duration :: "int option"
  r_invocations :: "int option"

text \<open>\<^verbatim>\<open>TestResult\<close>: the file-level result.\<close>

record TestResult =
  tr_testResults :: "TestCaseResult list"
  tr_perfStart :: int
  tr_perfEnd :: int
  tr_numPassingTests :: nat
  tr_numPendingTests :: nat
  tr_numTodoTests :: nat
  tr_numFailingTests :: nat

subsection \<open>Reporter data\<close>

record WorkerInfo =
  workerIndex :: int
  parallelIndex :: int

record TestCase =
  tc_id :: string
  tc_timestamps :: "int list"
  tc_title :: "string list"
  tc_mode :: "string option"
  tc_result :: "TestCaseResult list"
  tc_worker :: WorkerInfo
  tc_config :: string

text \<open>
  \<^verbatim>\<open>SpecInfo\<close>. The project id is read from \<^verbatim>\<open>projectBySpecMap\<close> by the case
  handlers and may be \<^verbatim>\<open>undefined\<close>.
\<close>

record SpecInfo =
  si_projectId :: "string option"
  si_specName :: string
  si_testCaseList :: "(string \<times> TestCase) list"
  si_specResult :: "TestResult option"
  si_worker :: WorkerInfo

datatype TestState = StateFailed | StatePassed | StatePending | StateSkipped

datatype TestExpectedStatus =
  ExpectedPassed | ExpectedFailed | ExpectedTimedOut | ExpectedSkipped | ExpectedInterrupted

text \<open>The string value of an enum member.\<close>

fun TestExpectedStatus_value :: "TestExpectedStatus \<Rightarrow> string" where
  "TestExpectedStatus_value ExpectedPassed = ''passed''"
| "TestExpectedStatus_value ExpectedFailed = ''failed''"
| "TestExpectedStatus_value ExpectedTimedOut = ''timedOut''"
| "TestExpectedStatus_value ExpectedSkipped = ''skipped''"
| "TestExpectedStatus_value ExpectedInterrupted = ''interrupted''"

fun TestState_value :: "TestState \<Rightarrow> string" where
  "TestState_value StateFailed = ''failed''"
| "TestState_value StatePassed = ''passed''"
| "TestState_value StatePending = ''pending''"
| "TestState_value StateSkipped = ''skipped''"

subsection \<open>Status functions\<close>

definition statusToCurrentsStatus :: "string \<Rightarrow> TestState" where
  "statusToCurrentsStatus testStatus =
     (if testStatus = ''passed'' then StatePassed
      else if testStatus = ''failed'' then StateFailed
      else if testStatus = ''skipped'' \<or> testStatus = ''todo''
              \<or> testStatus = ''pending'' \<or> testStatus = ''disabled'' then StatePending
      else StateFailed)"

text \<open>
  \<^verbatim>\<open>allStatuses[0]\<close> is \<^verbatim>\<open>undefined\<close> on the empty list; \<^verbatim>\<open>every\<close> then holds
  and the match falls to \<^verbatim>\<open>otherwise\<close>.
\<close>

definition getRawTestStatus :: "TestCaseResult list \<Rightarrow> TestExpectedStatus" where
  "getRawTestStatus testCaseResults =
     (let allStatuses = map r_status testCaseResults;
          first = (case allStatuses of [] \<Rightarrow> None | x # _ \<Rightarrow> Some x)
      in if list_all (\<lambda>status. Some status = first) allStatuses then
           (case first of
              None \<Rightarrow> ExpectedFailed
            | Some k \<Rightarrow>
                if k = ''disabled'' \<or> k = ''skipped'' \<or> k = ''todo'' \<or> k = ''pending''
                  then ExpectedSkipped
                else if k = ''passed'' then ExpectedPassed
                else if k = ''failed'' then ExpectedFailed
                else ExpectedFailed)
         else ExpectedFailed)"

text \<open>
  \<^verbatim>\<open>flowRight(statusToCurrentsStatus, getRawTestStatus)\<close>: the expected status goes into
  \<^verbatim>\<open>statusToCurrentsStatus\<close> as its string value.
\<close>

definition getTestCaseStatus :: "TestCaseResult list \<Rightarrow> TestState" where
  "getTestCaseStatus testCaseResults =
     statusToCurrentsStatus (TestExpectedStatus_value (getRawTestStatus testCaseResults))"

definition getAttempt :: "TestCaseResult \<Rightarrow> int" where
  "getAttempt result = (case r_invocations result of None \<Rightarrow> 1 | Some n \<Rightarrow> n)"

subsection \<open>The report\<close>

text \<open>
  \<open>GetError rootDir message specName\<close> stands for the value of
  \<^verbatim>\<open>getError(formatError(rootDir, new Error(message), false, specName), rootDir)\<close>; both
  helpers live in \<^verbatim>\<open>./lib\<close>.
\<close>

datatype ErrorReport = GetError string string string

record AttemptReport =
  a_s :: TestState
  a_attempt :: int
  a_workerIndex :: int
  a_parallelIndex :: int
  a_startTime :: int
  a_steps :: "string list"
  a_duration :: int
  a_status :: TestExpectedStatus
  a_stdout :: "string list"
  a_stderr :: "string list"
  a_errors :: "ErrorReport list"
  a_error :: "ErrorReport option"

record Location =
  loc_column :: nat
  loc_file :: string
  loc_line :: nat

record TestReport =
  e_t :: int
  e_testId :: string
  e_title :: "string list"
  e_state :: TestState
  e_isFlaky :: bool
  e_expectedStatus :: TestExpectedStatus
  e_timeout :: nat
  e_location :: Location
  e_retries :: nat
  e_attempts :: "AttemptReport list"

record Stats =
  st_suites :: nat
  st_tests :: nat
  st_passes :: nat
  st_pending :: nat
  st_skipped :: nat
  st_failures :: nat
  st_flaky :: nat
  st_wallClockStartedAt :: int
  st_wallClockEndedAt :: int
  st_wallClockDuration :: int

record InstanceReport =
  ir_groupId :: "string option"
  ir_spec :: string
  ir_worker :: WorkerInfo
  ir_startTime :: int
  ir_stats :: Stats
  ir_tests :: "TestReport list"

text \<open>One element of \<^verbatim>\<open>attempts\<close>: the callback of \<^verbatim>\<open>testCase.result.map\<close>.\<close>

definition attemptReport :: "string \<Rightarrow> int \<Rightarrow> TestCase \<Rightarrow> nat \<times> TestCaseResult \<Rightarrow> AttemptReport" where
  "attemptReport specName startTime testCase ir =
     (let index = fst ir; result = snd ir;
          stderr = (case r_failureMessages result of None \<Rightarrow> [] | Some ms \<Rightarrow> ms);
          errors = map (\<lambda>i. GetError (tc_config testCase) i specName) stderr
      in \<lparr> a_s = getTestCaseStatus [result],
           a_attempt = getAttempt result,
           a_workerIndex = workerIndex (tc_worker testCase),
           a_parallelIndex = parallelIndex (tc_worker testCase),
           a_startTime =
             (if tc_timestamps testCase \<noteq> [] \<and> index < length (tc_timestamps testCase)
                 \<and> tc_timestamps testCase ! index \<noteq> 0
              then tc_timestamps testCase ! index else startTime),
           a_steps = [],
           a_duration = (case r_duration (tc_result testCase ! index) of None \<Rightarrow> 0 | Some d \<Rightarrow> d),
           a_status = getRawTestStatus [result],
           a_stdout = [],
           a_stderr = stderr,
           a_errors = errors,
           a_error = (case errors of [] \<Rightarrow> None | e # _ \<Rightarrow> Some e) \<rparr>)"

text \<open>
  One element of \<^verbatim>\<open>tests\<close>: the callback of
  \<^verbatim>\<open>Object.values(this.specInfo[specKey].testCaseList).map\<close>. The index
  \<^verbatim>\<open>result.length - 1\<close> is read only when the list has more than one element.
\<close>

definition testReport :: "string \<Rightarrow> int \<Rightarrow> TestCase \<Rightarrow> TestReport" where
  "testReport specName perfStart testCase =
     (let status = getTestCaseStatus (tc_result testCase)
      in \<lparr> e_t = (case tc_timestamps testCase of [] \<Rightarrow> perfStart | t # _ \<Rightarrow> t),
           e_testId = tc_id testCase,
           e_title = tc_title testCase,
           e_state = status,
           e_isFlaky =
             (length (tc_result testCase) > 1 \<and>
              r_status (tc_result testCase ! (length (tc_result testCase) - 1))
                = TestState_value StatePassed),
           e_expectedStatus =
             (if tc_mode testCase = Some ''skip'' \<or> tc_mode testCase = Some ''todo''
              then ExpectedSkipped else ExpectedPassed),
           e_timeout = 0,
           e_location = \<lparr> loc_column = 1, loc_file = specName, loc_line = 1 \<rparr>,
           e_retries = length (tc_result testCase) + 1,
           e_attempts =
             map (attemptReport specName perfStart testCase)
                 (List.enumerate 0 (tc_result testCase)) \<rparr>)"

text \<open>The payload built by \<^verbatim>\<open>onTestFileResult\<close> from the spec record.\<close>

definition instanceReport :: "string \<Rightarrow> TestResult \<Rightarrow> SpecInfo \<Rightarrow> InstanceReport" where
  "instanceReport specName testResult info =
     (let startTime = tr_perfStart testResult;
          endTime = tr_perfEnd testResult;
          wallClockDuration = tr_perfEnd testResult - tr_perfStart testResult;
          tests = map (\<lambda>kv. testReport specName (tr_perfStart testResult) (snd kv))
                      (si_testCaseList info);
          flakyCount = length (filter e_isFlaky tests)
      in \<lparr> ir_groupId = si_projectId info,
           ir_spec = si_specName info,
           ir_worker = si_worker info,
           ir_startTime = startTime,
           ir_stats =
             \<lparr> st_suites = 1,
               st_tests = length (tr_testResults testResult),
               st_passes = tr_numPassingTests testResult,
               st_pending = 0,
               st_skipped = tr_numPendingTests testResult + tr_numTodoTests testResult,
               st_failures = tr_numFailingTests testResult,
               st_flaky = flakyCount,
               st_wallClockStartedAt = startTime,
               st_wallClockEndedAt = endTime,
               st_wallClockDuration = wallClockDuration \<rparr>,
           ir_tests = tests \<rparr>)"

subsection \<open>Deferred gates\<close>

text \<open>
  Modelled from the spec: the class \<^verbatim>\<open>Deferred\<close> of \<^verbatim>\<open>./lib\<close>, which is not among
  the sources. A gate is created unsettled, \<^verbatim>\<open>resolve()\<close> settles it, and awaiting its
  promise continues once it is settled. \<open>d_ident\<close> is the identity of the object (the
  number of gates constructed before it) and \<open>d_resolveCalls\<close> counts the calls of
  \<^verbatim>\<open>resolve()\<close> on it.
\<close>

record Deferred =
  d_ident :: nat
  d_resolveCalls :: nat

definition newDeferred :: "nat \<Rightarrow> Deferred" where
  "newDeferred n = \<lparr> d_ident = n, d_resolveCalls = 0 \<rparr>"

definition resolve :: "Deferred \<Rightarrow> Deferred" where
  "resolve d = d\<lparr> d_resolveCalls := Suc (d_resolveCalls d) \<rparr>"

definition resolved :: "Deferred \<Rightarrow> bool" where
  "resolved d = (0 < d_resolveCalls d)"

subsection \<open>The reporter's state\<close>

text \<open>
  The fields of \<^verbatim>\<open>CustomReporter\<close> that the handlers read and write, and three parts of
  their surroundings:
  \<^item> \<open>deferredCount\<close>, the number of \<^verbatim>\<open>Deferred\<close> objects constructed so far;
  \<^item> \<open>awaitingReportDir\<close>, the calls of \<^verbatim>\<open>onTestFileStart\<close> suspended at
    \<^verbatim>\<open>await this.reportDirDeferred.promise\<close>, oldest first;
  \<^item> \<open>jestWorkerId\<close>, the number in the environment variable \<^verbatim>\<open>JEST_WORKER_ID\<close>,
    \<open>None\<close> when it is unset or empty.

  A handler that awaits a gate which is already resolved runs on to its end before the
  next runner event is handled. The file system is left out: creating the directories and
  writing the files succeed.
\<close>

record Reporter =
  specInfo :: "string \<rightharpoonup> SpecInfo"
  projectBySpecMap :: "string \<rightharpoonup> string"
  specsCount :: nat
  processedSpecsCount :: nat
  reportDirDeferred :: Deferred
  specInfoDeferred :: "string \<rightharpoonup> Deferred"
  testCaseDeferred :: "string \<rightharpoonup> Deferred"
  resultsDeferred :: "string \<rightharpoonup> Deferred"
  deferredCount :: nat
  awaitingReportDir :: "Test list"
  jestWorkerId :: "int option"

definition initial :: "int option \<Rightarrow> Reporter" where
  "initial env =
     \<lparr> specInfo = Map.empty, projectBySpecMap = Map.empty,
       specsCount = 0, processedSpecsCount = 0,
       reportDirDeferred = newDeferred 0,
       specInfoDeferred = Map.empty, testCaseDeferred = Map.empty,
       resultsDeferred = Map.empty,
       deferredCount = 1, awaitingReportDir = [], jestWorkerId = env \<rparr>"

text \<open>
  What stops a handler: a property read on \<^verbatim>\<open>undefined\<close>, or an await of a gate that is
  not resolved. The reporter's state at that point comes with it.
\<close>

datatype failure = TypeError | Suspended

type_synonym 'a outcome = "(failure \<times> Reporter) + 'a"

subsection \<open>Keys and workers\<close>

text \<open>A template literal prints \<^verbatim>\<open>undefined\<close> as that word.\<close>

definition template :: "string option \<Rightarrow> string" where
  "template v = (case v of None \<Rightarrow> ''undefined'' | Some x \<Rightarrow> x)"

definition getSpecKey :: "string option \<Rightarrow> string \<Rightarrow> string" where
  "getSpecKey projectId specName = template projectId @ '':'' @ specName"

definition getTestCaseKey :: "string option \<Rightarrow> string \<Rightarrow> string \<Rightarrow> string" where
  "getTestCaseKey projectId specName testId =
     template projectId @ '':'' @ specName @ '':'' @ testId"

definition getWorker :: "int option \<Rightarrow> bool \<Rightarrow> WorkerInfo" where
  "getWorker env skipped =
     (let wi = (if skipped then - 1 else (case env of None \<Rightarrow> 1 | Some n \<Rightarrow> n))
      in \<lparr> workerIndex = wi, parallelIndex = wi \<rparr>)"

subsection \<open>Handlers\<close>

text \<open>\<^verbatim>\<open>onTestFileStart\<close> after its await.\<close>

definition onTestFileStart_resume :: "Test \<Rightarrow> Reporter \<Rightarrow> Reporter" where
  "onTestFileStart_resume test s =
     (let specName = t_specName test; projectId = t_projectId test;
          specKey = getSpecKey (Some projectId) specName
      in s\<lparr> specInfo := (specInfo s)(specKey \<mapsto>
                \<lparr> si_projectId = Some projectId, si_specName = specName,
                  si_testCaseList = [], si_specResult = None,
                  si_worker = getWorker (jestWorkerId s) False \<rparr>),
            specInfoDeferred := (specInfoDeferred s)(specKey \<mapsto>
                resolve (newDeferred (deferredCount s))),
            deferredCount := Suc (deferredCount s) \<rparr>)"

definition onTestFileStart :: "Test \<Rightarrow> Reporter \<Rightarrow> Reporter" where
  "onTestFileStart test s =
     (let s1 = s\<lparr> projectBySpecMap :=
                   (projectBySpecMap s)(t_specName test \<mapsto> t_projectId test) \<rparr>
      in if resolved (reportDirDeferred s1) then onTestFileStart_resume test s1
         else s1\<lparr> awaitingReportDir := awaitingReportDir s1 @ [test] \<rparr>)"

text \<open>
  \<^verbatim>\<open>onRunStart\<close> up to its first await, and after its last one. Between the two
  the directories are created and the configuration file is written, and other handlers
  may run. Resolving the gate wakes the suspended \<^verbatim>\<open>onTestFileStart\<close> calls in the
  order they began to wait.
\<close>

definition onRunStart :: "nat \<Rightarrow> Reporter \<Rightarrow> Reporter" where
  "onRunStart numTotalTestSuites s = s\<lparr> specsCount := numTotalTestSuites \<rparr>"

definition onRunStart_resume :: "Reporter \<Rightarrow> Reporter" where
  "onRunStart_resume s =
     (let s1 = s\<lparr> reportDirDeferred := resolve (reportDirDeferred s),
                  awaitingReportDir := [] \<rparr>
      in foldl (\<lambda>acc test. onTestFileStart_resume test acc) s1 (awaitingReportDir s))"

definition onTestCaseStart :: "Test \<Rightarrow> TestCaseStartInfo \<Rightarrow> Reporter \<Rightarrow> Reporter" where
  "onTestCaseStart test testCaseStartInfo s =
     (let specName = t_specName test;
          projectId = projectBySpecMap s specName;
          testId = i_testId testCaseStartInfo;
          specKey = getSpecKey projectId specName;
          info = (case specInfo s specKey of
                    None \<Rightarrow> \<lparr> si_projectId = projectId, si_specName = specName,
                              si_testCaseList = [], si_specResult = None,
                              si_worker = getWorker (jestWorkerId s) False \<rparr>
                  | Some i \<Rightarrow> i);
          s1 = (if specInfo s specKey = None
                then s\<lparr> specInfo := (specInfo s)(specKey \<mapsto> info),
                        specInfoDeferred := (specInfoDeferred s)(specKey \<mapsto>
                           resolve (newDeferred (deferredCount s))),
                        deferredCount := Suc (deferredCount s) \<rparr>
                else s);
          testCaseKey = getTestCaseKey projectId specName testId;
          startedAt = (case i_startedAt testCaseStartInfo of
                         None \<Rightarrow> i_clock testCaseStartInfo | Some t \<Rightarrow> t)
      in case map_of (si_testCaseList info) testCaseKey of
           None \<Rightarrow>
             s1\<lparr> specInfo := (specInfo s1)(specKey \<mapsto>
                    info\<lparr> si_testCaseList :=
                      AList.update testCaseKey
                        \<lparr> tc_id = testId, tc_timestamps = [startedAt],
                          tc_title = i_fullTitle testCaseStartInfo,
                          tc_mode = i_mode testCaseStartInfo, tc_result = [],
                          tc_worker = getWorker (jestWorkerId s) False,
                          tc_config = t_rootDir test \<rparr>
                        (si_testCaseList info) \<rparr>),
                 testCaseDeferred := (testCaseDeferred s1)(testCaseKey \<mapsto>
                    resolve (newDeferred (deferredCount s1))),
                 deferredCount := Suc (deferredCount s1) \<rparr>
         | Some testCase \<Rightarrow>
             s1\<lparr> specInfo := (specInfo s1)(specKey \<mapsto>
                    info\<lparr> si_testCaseList :=
                      AList.update testCaseKey
                        (testCase\<lparr> tc_timestamps := tc_timestamps testCase @ [startedAt] \<rparr>)
                        (si_testCaseList info) \<rparr>) \<rparr>)"

text \<open>The record made for a test whose start was not seen.\<close>

definition skippedTestCase :: "int option \<Rightarrow> Test \<Rightarrow> TestCaseResult \<Rightarrow> TestCaseResult list \<Rightarrow> TestCase" where
  "skippedTestCase env test testCaseResult results =
     \<lparr> tc_id = r_testId testCaseResult, tc_timestamps = [],
       tc_title = r_fullTitle testCaseResult, tc_mode = Some ''skip'',
       tc_result = results, tc_worker = getWorker env True,
       tc_config = t_rootDir test \<rparr>"

definition onTestCaseResult :: "Test \<Rightarrow> TestCaseResult \<Rightarrow> Reporter \<Rightarrow> Reporter outcome" where
  "onTestCaseResult test testCaseResult s =
     (let specName = t_specName test;
          projectId = projectBySpecMap s specName;
          testId = r_testId testCaseResult;
          specKey = getSpecKey projectId specName
      in case specInfoDeferred s specKey of
           None \<Rightarrow> Inl (TypeError, s)
         | Some specGate \<Rightarrow>
             if \<not> resolved specGate then Inl (Suspended, s)
             else
               (let testCaseKey = getTestCaseKey projectId specName testId;
                    s1 = (if testCaseDeferred s testCaseKey = None
                          then s\<lparr> testCaseDeferred := (testCaseDeferred s)(testCaseKey \<mapsto>
                                     resolve (newDeferred (deferredCount s))),
                                  deferredCount := Suc (deferredCount s) \<rparr>
                          else s)
                in case testCaseDeferred s1 testCaseKey of
                     None \<Rightarrow> Inl (TypeError, s1)
                   | Some caseGate \<Rightarrow>
                       if \<not> resolved caseGate then Inl (Suspended, s1)
                       else
                         (case specInfo s1 specKey of
                            None \<Rightarrow> Inl (TypeError, s1)
                          | Some info \<Rightarrow>
                              (let testCase =
                                     (case map_of (si_testCaseList info) testCaseKey of
                                        None \<Rightarrow> skippedTestCase (jestWorkerId s) test
                                                  testCaseResult []
                                      | Some tc \<Rightarrow> tc)
                               in Inr (s1\<lparr> specInfo := (specInfo s1)(specKey \<mapsto>
                                             info\<lparr> si_testCaseList :=
                                               AList.update testCaseKey
                                                 (testCase\<lparr> tc_result :=
                                                    tc_result testCase @ [testCaseResult] \<rparr>)
                                                 (si_testCaseList info) \<rparr>),
                                          resultsDeferred := (resultsDeferred s1)(testCaseKey \<mapsto>
                                             resolve (newDeferred (deferredCount s1))),
                                          deferredCount := Suc (deferredCount s1) \<rparr>)))))"

text \<open>
  The callback that \<^verbatim>\<open>onTestFileResult\<close> maps over \<^verbatim>\<open>testResult.testResults\<close>, run up
  to its await: the new state, and what stops the callback if anything does.
\<close>

definition declaredTest :: "string option \<Rightarrow> Test \<Rightarrow> TestCaseResult \<Rightarrow> Reporter \<Rightarrow> Reporter \<times> failure option" where
  "declaredTest projectId test testResult s =
     (let specName = t_specName test;
          specKey = getSpecKey projectId specName;
          testCaseKey = getTestCaseKey projectId specName (r_testId testResult)
      in case specInfo s specKey of
           None \<Rightarrow> (s, Some TypeError)
         | Some info \<Rightarrow>
             (case map_of (si_testCaseList info) testCaseKey of
                None \<Rightarrow>
                  (s\<lparr> specInfo := (specInfo s)(specKey \<mapsto>
                        info\<lparr> si_testCaseList :=
                          AList.update testCaseKey
                            (skippedTestCase (jestWorkerId s) test testResult [testResult])
                            (si_testCaseList info) \<rparr>) \<rparr>, None)
              | Some _ \<Rightarrow>
                  (case resultsDeferred s testCaseKey of
                     None \<Rightarrow> (s, Some TypeError)
                   | Some g \<Rightarrow> if resolved g then (s, None) else (s, Some Suspended))))"

text \<open>The callbacks run one after the other, each up to its await.\<close>

fun declaredTests :: "string option \<Rightarrow> Test \<Rightarrow> TestCaseResult list \<Rightarrow> Reporter \<Rightarrow> Reporter \<times> failure list" where
  "declaredTests projectId test [] s = (s, [])"
| "declaredTests projectId test (r # rs) s =
     (case declaredTest projectId test r s of
        (s1, f) \<Rightarrow>
          (case declaredTests projectId test rs s1 of
             (s2, fs) \<Rightarrow> (s2, (case f of None \<Rightarrow> [] | Some x \<Rightarrow> [x]) @ fs)))"

text \<open>
  \<^verbatim>\<open>onTestFileResult\<close>. \<^verbatim>\<open>Promise.all\<close> rejects when a callback threw, and never
  settles when none threw and one waits for an unresolved gate. The report is the payload
  handed to \<^verbatim>\<open>writeFileAsync\<close>.
\<close>

definition onTestFileResult :: "Test \<Rightarrow> TestResult \<Rightarrow> Reporter \<Rightarrow> (InstanceReport \<times> Reporter) outcome" where
  "onTestFileResult test testResult s =
     (let specName = t_specName test;
          projectId = projectBySpecMap s specName;
          specKey = getSpecKey projectId specName
      in case declaredTests projectId test (tr_testResults testResult) s of
           (s1, fs) \<Rightarrow>
             if TypeError \<in> set fs then Inl (TypeError, s1)
             else if Suspended \<in> set fs then Inl (Suspended, s1)
             else
               (case specInfo s1 specKey of
                  None \<Rightarrow> Inl (TypeError, s1)
                | Some info \<Rightarrow>
                    Inr (instanceReport specName testResult info,
                         s1\<lparr> processedSpecsCount := processedSpecsCount s1 + 1 \<rparr>)))"

subsection \<open>Runs\<close>

text \<open>
  The events of a run. \<open>RunStart\<close> is the call of \<^verbatim>\<open>onRunStart\<close> and
  \<open>ReportDirCreated\<close> its continuation once the directories exist; the other events
  are the calls of the handlers of the same name.
\<close>

datatype event =
  RunStart nat
| ReportDirCreated
| FileStart Test
| CaseStart Test TestCaseStartInfo
| CaseResult Test TestCaseResult
| FileResult Test TestResult
| RunComplete

text \<open>The reporter's state once a handler has returned or stopped.\<close>

definition stateAfter :: "Reporter outcome \<Rightarrow> Reporter" where
  "stateAfter r = (case r of Inl (f, s) \<Rightarrow> s | Inr s \<Rightarrow> s)"

definition failureOf :: "'a outcome \<Rightarrow> failure option" where
  "failureOf r = (case r of Inl (f, s) \<Rightarrow> Some f | Inr x \<Rightarrow> None)"

fun deliver :: "event \<Rightarrow> Reporter \<Rightarrow> Reporter" where
  "deliver (RunStart n) s = onRunStart n s"
| "deliver ReportDirCreated s = onRunStart_resume s"
| "deliver (FileStart test) s = onTestFileStart test s"
| "deliver (CaseStart test info) s = onTestCaseStart test info s"
| "deliver (CaseResult test r) s = stateAfter (onTestCaseResult test r s)"
| "deliver (FileResult test tr) s = stateAfter (map_sum id snd (onTestFileResult test tr s))"
| "deliver RunComplete s = s"

fun run :: "event list \<Rightarrow> Reporter \<Rightarrow> Reporter" where
  "run [] s = s"
| "run (e # es) s = run es (deliver e s)"

text \<open>Reading a test case record, and the attempts recorded for a key.\<close>

definition lookupCase :: "Reporter \<Rightarrow> string \<Rightarrow> string \<Rightarrow> TestCase option" where
  "lookupCase s specKey testCaseKey =
     (case specInfo s specKey of
        None \<Rightarrow> None
      | Some info \<Rightarrow> map_of (si_testCaseList info) testCaseKey)"

definition attemptsOf :: "Reporter \<Rightarrow> string \<Rightarrow> string \<Rightarrow> TestCaseResult list" where
  "attemptsOf s specKey testCaseKey =
     (case lookupCase s specKey testCaseKey of None \<Rightarrow> [] | Some tc \<Rightarrow> tc_result tc)"

definition reportedTests :: "(InstanceReport \<times> Reporter) outcome \<Rightarrow> TestReport list" where
  "reportedTests r = (case r of Inl _ \<Rightarrow> [] | Inr (report, _) \<Rightarrow> ir_tests report)"

text \<open>
  The case events of one logical test: the starts and results that carry the spec name of
  \<open>test\<close> and the test id \<open>testId\<close>. \<open>resultsIn\<close> lists the outcomes among events.
\<close>

fun caseEventOf :: "Test \<Rightarrow> string \<Rightarrow> event \<Rightarrow> bool" where
  "caseEventOf test testId (CaseStart t i) =
     (t_specName t = t_specName test \<and> i_testId i = testId)"
| "caseEventOf test testId (CaseResult t r) =
     (t_specName t = t_specName test \<and> r_testId r = testId)"
| "caseEventOf test testId _ = False"

fun resultsIn :: "event list \<Rightarrow> TestCaseResult list" where
  "resultsIn [] = []"
| "resultsIn (CaseResult t r # es) = r # resultsIn es"
| "resultsIn (_ # es) = resultsIn es"

fun beginsWithStart :: "event list \<Rightarrow> bool" where
  "beginsWithStart (CaseStart t i # es) = True"
| "beginsWithStart _ = False"

text \<open>
  What every state of a run satisfies: a spec key has a gate exactly when it has a record,
  and every gate kept under a key was resolved once and was constructed before the
  current count.
\<close>

definition settled :: "nat \<Rightarrow> (string \<rightharpoonup> Deferred) \<Rightarrow> bool" where
  "settled n tbl = (\<forall>k g. tbl k = Some g \<longrightarrow> d_resolveCalls g = 1 \<and> d_ident g < n)"

definition consistent :: "Reporter \<Rightarrow> bool" where
  "consistent s =
     ((\<forall>k. (specInfoDeferred s k = None) = (specInfo s k = None)) \<and>
      settled (deferredCount s) (specInfoDeferred s) \<and>
      settled (deferredCount s) (testCaseDeferred s) \<and>
      settled (deferredCount s) (resultsDeferred s))"

subsection \<open>A small run\<close>

definition exTest :: Test where
  "exTest = \<lparr> t_specName = ''a.test.js'', t_projectId = ''p'', t_rootDir = ''/r'' \<rparr>"

definition exStart :: "int \<Rightarrow> TestCaseStartInfo" where
  "exStart t = \<lparr> i_testId = ''t1'', i_fullTitle = [''suite'', ''adds''],
                 i_startedAt = Some t, i_clock = t, i_mode = None \<rparr>"

definition exResult :: "string \<Rightarrow> TestCaseResult" where
  "exResult st = \<lparr> r_testId = ''t1'', r_fullTitle = [''suite'', ''adds''],
                   r_status = st, r_failureMessages = None,
                   r_duration = Some 3, r_invocations = None \<rparr>"

definition exFileResult :: "string \<Rightarrow> TestResult" where
  "exFileResult st =
     \<lparr> tr_testResults = [exResult st], tr_perfStart = 90, tr_perfEnd = 200,
       tr_numPassingTests = 1, tr_numPendingTests = 2, tr_numTodoTests = 1,
       tr_numFailingTests = 0 \<rparr>"

definition exStarted :: Reporter where
  "exStarted = run [RunStart 1, ReportDirCreated, FileStart exTest] (initial None)"

definition exRetried :: Reporter where
  "exRetried =
     run [CaseStart exTest (exStart 100), CaseResult exTest (exResult ''failed''),
          CaseStart exTest (exStart 110), CaseResult exTest (exResult ''failed''),
          CaseStart exTest (exStart 120), CaseResult exTest (exResult ''passed'')] exStarted"

definition exCase :: "string list \<Rightarrow> TestCase" where
  "exCase statuses =
     \<lparr> tc_id = ''t1'', tc_timestamps = [100], tc_title = [''suite'', ''adds''],
       tc_mode = None, tc_result = map exResult statuses,
       tc_worker = getWorker None False, tc_config = ''/r'' \<rparr>"

text \<open>One attempt of the test, started and reported failed.\<close>

definition exOnce :: Reporter where
  "exOnce =
     run [CaseStart exTest (exStart 100), CaseResult exTest (exResult ''failed'')] exStarted"

text \<open>
  The file start waits for the report directory while the test starts and reports passed.
\<close>

definition exSuspended :: Reporter where
  "exSuspended =
     run [RunStart 1, FileStart exTest, CaseStart exTest (exStart 100),
          CaseResult exTest (exResult ''passed'')] (initial None)"

text \<open>A test of another spec.\<close>

definition exOther :: Test where
  "exOther = \<lparr> t_specName = ''b.test.js'', t_projectId = ''p'', t_rootDir = ''/r'' \<rparr>"

text \<open>The test starts before its file start is called, and reports after it.\<close>

definition exRaced :: Reporter where
  "exRaced =
     run [RunStart 1, ReportDirCreated, CaseStart exTest (exStart 100), FileStart exTest,
          CaseResult exTest (exResult ''passed'')] (initial None)"

text \<open>The report directory exists and no handler of a spec has run.\<close>

definition exReady :: Reporter where
  "exReady = run [RunStart 1, ReportDirCreated] (initial None)"

section \<open>Properties\<close>

lemmas run_defs = exStarted_def exTest_def exStart_def exResult_def exFileResult_def
  exOther_def exRaced_def exReady_def
  initial_def onRunStart_def onRunStart_resume_def onTestFileStart_def
  onTestFileStart_resume_def onTestCaseStart_def onTestCaseResult_def onTestFileResult_def
  declaredTest_def lookupCase_def attemptsOf_def getSpecKey_def getTestCaseKey_def template_def
  resolved_def resolve_def newDeferred_def stateAfter_def failureOf_def skippedTestCase_def
  getWorker_def reportedTests_def

lemmas report_defs = instanceReport_def testReport_def attemptReport_def getTestCaseStatus_def
  getRawTestStatus_def statusToCurrentsStatus_def getAttempt_def

subsection \<open>The status functions\<close>

lemma getRawTestStatus_uniform:
  assumes "rs \<noteq> []" and "\<forall>r \<in> set rs. r_status r = k"
  shows "getRawTestStatus rs =
     (if k = ''disabled'' \<or> k = ''skipped'' \<or> k = ''todo'' \<or> k = ''pending''
        then ExpectedSkipped
      else if k = ''passed'' then ExpectedPassed else ExpectedFailed)"
proof -
  obtain r rs' where rs: "rs = r # rs'" using assms(1) by (cases rs) auto
  have all: "list_all (\<lambda>status. Some status = Some k) (map r_status rs)"
    using assms(2) by (simp add: list_all_iff)
  have first: "r_status r = k" using assms(2) rs by simp
  show ?thesis using all first unfolding getRawTestStatus_def rs
    by (simp add: Let_def)
qed

text \<open>
  C7. When the attempts are not empty and all have the same outcome kind \<open>k\<close>, the raw
  status is Skipped for skipped, todo, pending and disabled, Passed for passed, Failed
  for failed, and Failed for every other kind; the coarse status follows it, with Pending
  in the place of Skipped. Both functions are total: they give a status on every list.
\<close>

theorem raw_status_of_uniform_attempts:
  assumes "rs \<noteq> []" and "\<forall>r \<in> set rs. r_status r = k"
  shows "getRawTestStatus rs =
     (if k \<in> {''skipped'', ''todo'', ''pending'', ''disabled''} then ExpectedSkipped
      else if k = ''passed'' then ExpectedPassed
      else if k = ''failed'' then ExpectedFailed
      else ExpectedFailed)
   \<and> getTestCaseStatus rs =
     (if k \<in> {''skipped'', ''todo'', ''pending'', ''disabled''} then StatePending
      else if k = ''passed'' then StatePassed
      else StateFailed)"
  using getRawTestStatus_uniform [OF assms]
  by (auto simp: getTestCaseStatus_def statusToCurrentsStatus_def)

theorem raw_status_of_uniform_attempts_witness:
  "[exResult ''todo'', exResult ''todo''] \<noteq> []
   \<and> list_all (\<lambda>r. r_status r = ''todo'') [exResult ''todo'', exResult ''todo'']
   \<and> getRawTestStatus [exResult ''todo'', exResult ''todo''] = ExpectedSkipped
   \<and> getTestCaseStatus [exResult ''todo'', exResult ''todo''] = StatePending
   \<and> getRawTestStatus [exResult ''focused''] = ExpectedFailed
   \<and> getTestCaseStatus [exResult ''focused''] = StateFailed"
  using raw_status_of_uniform_attempts [of "[exResult ''todo'', exResult ''todo'']" "''todo''"]
        raw_status_of_uniform_attempts [of "[exResult ''focused'']" "''focused''"]
  by (simp add: exResult_def)

text \<open>
  C6. The \<^verbatim>\<open>isFlaky\<close> field of a report entry is true exactly when the test case has
  more than one attempt and the status of the last attempt is \<^verbatim>\<open>passed\<close>.
\<close>

theorem isFlaky_iff:
  "e_isFlaky (testReport specName perfStart testCase) =
     (1 < length (tc_result testCase) \<and> r_status (last (tc_result testCase)) = ''passed'')"
  by (cases "tc_result testCase = []") (simp_all add: testReport_def Let_def last_conv_nth)

theorem isFlaky_iff_witness:
  "e_isFlaky (testReport ''a.test.js'' 90 (exCase [''failed'', ''passed'']))
   \<and> \<not> e_isFlaky (testReport ''a.test.js'' 90 (exCase [''passed'', ''failed'']))
   \<and> \<not> e_isFlaky (testReport ''a.test.js'' 90 (exCase [''passed'']))"
  using isFlaky_iff [of "''a.test.js''" 90 "exCase [''failed'', ''passed'']"]
        isFlaky_iff [of "''a.test.js''" 90 "exCase [''passed'', ''failed'']"]
        isFlaky_iff [of "''a.test.js''" 90 "exCase [''passed'']"]
  by (simp add: exCase_def exResult_def)

text \<open>
  C2, as the code has it. For attempts failed, failed, passed the entry is flaky, its
  \<^verbatim>\<open>state\<close> is Failed, and its \<^verbatim>\<open>expectedStatus\<close> is Passed, or Skipped when the
  mode of the test case is skip or todo. For the single attempt passed the entry is not
  flaky, its \<^verbatim>\<open>state\<close> is Passed, and its \<^verbatim>\<open>expectedStatus\<close> is again Passed, or
  Skipped for the modes skip and todo.
\<close>

theorem flaky_entry_fields:
  "(map r_status (tc_result testCase) = [''failed'', ''failed'', ''passed''] \<longrightarrow>
      e_isFlaky (testReport specName perfStart testCase)
      \<and> e_state (testReport specName perfStart testCase) = StateFailed
      \<and> e_expectedStatus (testReport specName perfStart testCase) =
          (if tc_mode testCase = Some ''skip'' \<or> tc_mode testCase = Some ''todo''
           then ExpectedSkipped else ExpectedPassed))
   \<and> (map r_status (tc_result testCase) = [''passed''] \<longrightarrow>
      \<not> e_isFlaky (testReport specName perfStart testCase)
      \<and> e_state (testReport specName perfStart testCase) = StatePassed
      \<and> e_expectedStatus (testReport specName perfStart testCase) =
          (if tc_mode testCase = Some ''skip'' \<or> tc_mode testCase = Some ''todo''
           then ExpectedSkipped else ExpectedPassed))"
proof (intro conjI impI)
  assume a: "map r_status (tc_result testCase) = [''failed'', ''failed'', ''passed'']"
  then obtain r1 r2 r3 where rs: "tc_result testCase = [r1, r2, r3]"
    and st: "r_status r1 = ''failed''" "r_status r2 = ''failed''" "r_status r3 = ''passed''"
    by (auto simp: map_eq_Cons_conv)
  show "e_isFlaky (testReport specName perfStart testCase)"
    by (simp add: testReport_def Let_def rs st)
  show "e_state (testReport specName perfStart testCase) = StateFailed"
    by (simp add: testReport_def Let_def rs st report_defs)
next
  assume a: "map r_status (tc_result testCase) = [''passed'']"
  then obtain r1 where rs: "tc_result testCase = [r1]" and st: "r_status r1 = ''passed''"
    by (auto simp: map_eq_Cons_conv)
  show "\<not> e_isFlaky (testReport specName perfStart testCase)"
    by (simp add: testReport_def Let_def rs st)
  show "e_state (testReport specName perfStart testCase) = StatePassed"
    by (simp add: testReport_def Let_def rs st report_defs)
qed (simp_all add: testReport_def Let_def)

theorem flaky_entry_fields_witness:
  "map r_status (tc_result (exCase [''failed'', ''failed'', ''passed'']))
     = [''failed'', ''failed'', ''passed'']
   \<and> e_isFlaky (testReport ''a.test.js'' 90 (exCase [''failed'', ''failed'', ''passed'']))
   \<and> e_state (testReport ''a.test.js'' 90 (exCase [''failed'', ''failed'', ''passed'']))
       = StateFailed
   \<and> e_expectedStatus (testReport ''a.test.js'' 90 (exCase [''failed'', ''failed'', ''passed'']))
       = ExpectedPassed
   \<and> map r_status (tc_result (exCase [''passed''])) = [''passed'']
   \<and> \<not> e_isFlaky (testReport ''a.test.js'' 90 (exCase [''passed'']))
   \<and> e_state (testReport ''a.test.js'' 90 (exCase [''passed''])) = StatePassed
   \<and> e_expectedStatus (testReport ''a.test.js'' 90 (exCase [''passed''])) = ExpectedPassed"
  using flaky_entry_fields [of "exCase [''failed'', ''failed'', ''passed'']" "''a.test.js''" 90]
        flaky_entry_fields [of "exCase [''passed'']" "''a.test.js''" 90]
  by (simp add: exCase_def exResult_def)

text \<open>
  The claim C2 as the spec words it fails on a test that was started and reported three
  times, failed, failed, passed: the entry written for it is flaky, but its
  \<^verbatim>\<open>state\<close> is Failed, not Passed, and its \<^verbatim>\<open>expectedStatus\<close> is Passed, not Failed.
  It fails too on a test reported passed once whose start was not seen: the
  \<^verbatim>\<open>expectedStatus\<close> of its entry is Skipped.
\<close>

theorem flaky_entry_counterexample:
  "map e_isFlaky
     (reportedTests (onTestFileResult exTest (exFileResult ''passed'') exRetried)) = [True]
   \<and> map e_state
     (reportedTests (onTestFileResult exTest (exFileResult ''passed'') exRetried))
       = [StateFailed]
   \<and> map e_expectedStatus
     (reportedTests (onTestFileResult exTest (exFileResult ''passed'') exRetried))
       = [ExpectedPassed]
   \<and> map (map r_status)
       [attemptsOf (run [CaseResult exTest (exResult ''passed'')] exStarted)
          ''p:a.test.js'' ''p:a.test.js:t1''] = [[''passed'']]
   \<and> map e_expectedStatus
     (reportedTests (onTestFileResult exTest (exFileResult ''passed'')
        (run [CaseResult exTest (exResult ''passed'')] exStarted)))
       = [ExpectedSkipped]"
  by (simp add: exRetried_def run_defs report_defs Let_def)

subsection \<open>The report of a spec\<close>

lemma single_pass_report:
  "\<exists>report s' info tc. onTestFileResult exTest (exFileResult ''passed'')
        (run [CaseStart exTest (exStart 100), CaseResult exTest (exResult ''passed'')] exStarted)
          = Inr (report, s')
      \<and> specInfo s' ''p:a.test.js'' = Some info
      \<and> si_testCaseList info = [(''p:a.test.js:t1'', tc)]
      \<and> tc_result tc = [exResult ''passed'']"
  by (simp add: run_defs report_defs Let_def)

text \<open>
  C8. The \<^verbatim>\<open>retries\<close> field of the entry written for a test case is the number of
  attempts recorded for it plus one, and the entry lists exactly those attempts. Every
  report that \<^verbatim>\<open>onTestFileResult\<close> builds holds one such entry for each test case of
  the spec record, in the record's order. The witness is a spec with one test that ran
  once and passed: one recorded attempt, one listed attempt, \<^verbatim>\<open>retries\<close> 2.
\<close>

theorem retries_is_attempts_plus_one:
  "e_retries (testReport specName perfStart testCase) = length (tc_result testCase) + 1
   \<and> length (e_attempts (testReport specName perfStart testCase)) = length (tc_result testCase)
   \<and> (onTestFileResult test testResult s = Inr (report, s') \<longrightarrow>
        (\<exists>info. specInfo s' (getSpecKey (projectBySpecMap s (t_specName test)) (t_specName test))
                   = Some info
          \<and> ir_tests report =
              map (\<lambda>kv. testReport (t_specName test) (tr_perfStart testResult) (snd kv))
                  (si_testCaseList info)))"
  by (auto simp: onTestFileResult_def instanceReport_def testReport_def Let_def
           split: prod.splits if_splits option.splits)

theorem retries_is_attempts_plus_one_witness:
  "\<exists>report s'. onTestFileResult exTest (exFileResult ''passed'')
        (run [CaseStart exTest (exStart 100), CaseResult exTest (exResult ''passed'')] exStarted)
          = Inr (report, s')
      \<and> map_option (map (\<lambda>kv. tc_result (snd kv)) \<circ> si_testCaseList)
            (specInfo s' ''p:a.test.js'') = Some [[exResult ''passed'']]
      \<and> map e_retries (ir_tests report) = [2]
      \<and> map (\<lambda>e. length (e_attempts e)) (ir_tests report) = [1]"
proof -
  obtain report s' info tc where
    out: "onTestFileResult exTest (exFileResult ''passed'')
        (run [CaseStart exTest (exStart 100), CaseResult exTest (exResult ''passed'')] exStarted)
          = Inr (report, s')"
    and si: "specInfo s' ''p:a.test.js'' = Some info"
    and l: "si_testCaseList info = [(''p:a.test.js:t1'', tc)]"
    and r: "tc_result tc = [exResult ''passed'']"
    using single_pass_report by blast
  have k: "getSpecKey (projectBySpecMap
       (run [CaseStart exTest (exStart 100), CaseResult exTest (exResult ''passed'')] exStarted)
       (t_specName exTest)) (t_specName exTest) = ''p:a.test.js''"
    by (simp add: run_defs Let_def)
  note t = retries_is_attempts_plus_one [of "t_specName exTest" "tr_perfStart (exFileResult ''passed'')" tc
      exTest "exFileResult ''passed''"
      "run [CaseStart exTest (exStart 100), CaseResult exTest (exResult ''passed'')] exStarted"
      report s']
  from t out si l k have tests: "ir_tests report =
      [testReport (t_specName exTest) (tr_perfStart (exFileResult ''passed'')) tc]"
    by simp
  from t r have "e_retries (testReport (t_specName exTest) (tr_perfStart (exFileResult ''passed'')) tc) = 2"
    and "length (e_attempts (testReport (t_specName exTest) (tr_perfStart (exFileResult ''passed'')) tc)) = 1"
    by simp_all
  with out si l r tests show ?thesis by auto
qed

text \<open>
  C10. In every report that \<^verbatim>\<open>onTestFileResult\<close> builds, \<^verbatim>\<open>stats.pending\<close> is 0 and
  \<^verbatim>\<open>stats.skipped\<close> is the runner's count of pending tests plus its count of todo
  tests.
\<close>

theorem stats_pending_zero_skipped_sum:
  assumes "onTestFileResult test testResult s = Inr (report, s')"
  shows "st_pending (ir_stats report) = 0 \<and>
         st_skipped (ir_stats report) =
           tr_numPendingTests testResult + tr_numTodoTests testResult"
  using assms
  by (auto simp: onTestFileResult_def instanceReport_def Let_def
           split: prod.splits if_splits option.splits)

theorem stats_pending_zero_skipped_sum_witness:
  "\<exists>report s'. onTestFileResult exTest (exFileResult ''passed'')
        (run [CaseStart exTest (exStart 100), CaseResult exTest (exResult ''passed'')] exStarted)
          = Inr (report, s')
      \<and> st_pending (ir_stats report) = 0 \<and> st_skipped (ir_stats report) = 3"
proof -
  obtain report s' where
    out: "onTestFileResult exTest (exFileResult ''passed'')
        (run [CaseStart exTest (exStart 100), CaseResult exTest (exResult ''passed'')] exStarted)
          = Inr (report, s')"
    using single_pass_report by blast
  from stats_pending_zero_skipped_sum [OF out]
  have "st_pending (ir_stats report) = 0 \<and> st_skipped (ir_stats report) = 3"
    by (simp add: exFileResult_def)
  with out show ?thesis by blast
qed

subsection \<open>What every state of a run satisfies\<close>

lemma settled_mono: "settled n tbl \<Longrightarrow> n \<le> m \<Longrightarrow> settled m tbl"
  by (fastforce simp: settled_def)

lemma settled_fresh:
  "settled n tbl \<Longrightarrow> settled (Suc n) (tbl(k \<mapsto> resolve (newDeferred n)))"
  by (auto simp: settled_def resolve_def newDeferred_def less_Suc_eq)

lemma settled_Suc: "settled n tbl \<Longrightarrow> settled (Suc n) tbl"
  by (erule settled_mono) simp

lemma consistent_initial: "consistent (initial env)"
  by (simp add: consistent_def settled_def initial_def)

lemma consistent_onTestFileStart_resume:
  "consistent s \<Longrightarrow> consistent (onTestFileStart_resume test s)"
  by (simp add: consistent_def onTestFileStart_resume_def Let_def settled_fresh settled_Suc)

lemma consistent_onTestFileStart:
  "consistent s \<Longrightarrow> consistent (onTestFileStart test s)"
proof -
  assume c: "consistent s"
  have c1: "consistent (s\<lparr>projectBySpecMap := m\<rparr>)" for m
    using c by (simp add: consistent_def)
  show ?thesis
    unfolding onTestFileStart_def Let_def
    using consistent_onTestFileStart_resume [OF c1] c1
    by (simp add: consistent_def)
qed

lemma consistent_wake:
  "consistent s \<Longrightarrow> consistent (foldl (\<lambda>acc test. onTestFileStart_resume test acc) s ts)"
  by (induction ts arbitrary: s) (simp_all add: consistent_onTestFileStart_resume)

lemma consistent_onRunStart: "consistent s \<Longrightarrow> consistent (onRunStart n s)"
  by (simp add: consistent_def onRunStart_def)

lemma consistent_onRunStart_resume: "consistent s \<Longrightarrow> consistent (onRunStart_resume s)"
  unfolding onRunStart_resume_def Let_def
  by (rule consistent_wake) (simp add: consistent_def)

lemma consistent_onTestCaseStart:
  "consistent s \<Longrightarrow> consistent (onTestCaseStart test info s)"
  unfolding onTestCaseStart_def Let_def consistent_def
  by (auto split: option.splits simp: settled_fresh settled_Suc)

lemma consistent_onTestCaseResult:
  "consistent s \<Longrightarrow> consistent (stateAfter (onTestCaseResult test r s))"
  unfolding onTestCaseResult_def Let_def consistent_def stateAfter_def
  by (auto split: option.splits simp: settled_fresh settled_Suc)

lemma consistent_declaredTest:
  "consistent s \<Longrightarrow> consistent (fst (declaredTest projectId test r s))"
  unfolding declaredTest_def Let_def consistent_def
  by (auto split: option.splits)

lemma consistent_declaredTests:
  "consistent s \<Longrightarrow> consistent (fst (declaredTests projectId test rs s))"
proof (induction rs arbitrary: s)
  case Nil
  then show ?case by simp
next
  case (Cons r rs)
  from Cons.IH [OF consistent_declaredTest [OF Cons.prems, of projectId test r]]
  show ?case by (auto split: prod.splits)
qed

lemma consistent_onTestFileResult:
  "consistent s \<Longrightarrow> consistent (stateAfter (map_sum id snd (onTestFileResult test tr s)))"
proof -
  assume c: "consistent s"
  obtain s1 fs where d: "declaredTests (projectBySpecMap s (t_specName test)) test (tr_testResults tr) s = (s1, fs)"
    by (cases "declaredTests (projectBySpecMap s (t_specName test)) test (tr_testResults tr) s")
  from consistent_declaredTests [OF c, of "projectBySpecMap s (t_specName test)" test "tr_testResults tr"] d
  have c1: "consistent s1" by simp
  then have c2: "consistent (s1\<lparr>processedSpecsCount := n\<rparr>)" for n
    by (simp add: consistent_def)
  show ?thesis using c1 c2 d
    by (simp add: onTestFileResult_def Let_def stateAfter_def split: option.splits)
qed

lemma consistent_deliver: "consistent s \<Longrightarrow> consistent (deliver e s)"
  by (cases e)
     (simp_all add: consistent_onRunStart consistent_onRunStart_resume consistent_onTestFileStart
        consistent_onTestCaseStart consistent_onTestCaseResult consistent_onTestFileResult)

lemma consistent_run: "consistent s \<Longrightarrow> consistent (run es s)"
  by (induction es arbitrary: s) (simp_all add: consistent_deliver)

lemma run_append: "run (es @ es') s = run es' (run es s)"
  by (induction es arbitrary: s) simp_all

lemma settled_resolved: "settled n tbl \<Longrightarrow> tbl k = Some g \<Longrightarrow> resolved g"
  by (simp add: settled_def resolved_def)

text \<open>What the case-result handler returns when the spec has a gate.\<close>

lemma onTestCaseResult_returns:
  assumes c: "consistent s"
      and pid: "projectId = projectBySpecMap s (t_specName test)"
      and sk: "specKey = getSpecKey projectId (t_specName test)"
      and tk: "testCaseKey = getTestCaseKey projectId (t_specName test) (r_testId r)"
      and gate: "specInfoDeferred s specKey \<noteq> None"
  shows "\<exists>info s'. specInfo s specKey = Some info \<and> onTestCaseResult test r s = Inr s'
      \<and> specInfo s' = (specInfo s)(specKey \<mapsto> info\<lparr> si_testCaseList :=
            AList.update testCaseKey
              ((case map_of (si_testCaseList info) testCaseKey of
                  None \<Rightarrow> skippedTestCase (jestWorkerId s) test r []
                | Some tc \<Rightarrow> tc)\<lparr> tc_result :=
                    tc_result (case map_of (si_testCaseList info) testCaseKey of
                                 None \<Rightarrow> skippedTestCase (jestWorkerId s) test r []
                               | Some tc \<Rightarrow> tc) @ [r] \<rparr>)
              (si_testCaseList info) \<rparr>)
      \<and> projectBySpecMap s' = projectBySpecMap s
      \<and> specInfoDeferred s' = specInfoDeferred s
      \<and> testCaseDeferred s' =
           (case testCaseDeferred s testCaseKey of
              None \<Rightarrow> (testCaseDeferred s)(testCaseKey \<mapsto> resolve (newDeferred (deferredCount s)))
            | Some g \<Rightarrow> testCaseDeferred s)
      \<and> resultsDeferred s' = (resultsDeferred s)(testCaseKey \<mapsto>
           resolve (newDeferred (case testCaseDeferred s testCaseKey of
              None \<Rightarrow> Suc (deferredCount s) | Some g \<Rightarrow> deferredCount s)))"
proof -
  from gate obtain g where g: "specInfoDeferred s specKey = Some g" by auto
  from c have sg: "settled (deferredCount s) (specInfoDeferred s)"
    and tg: "settled (deferredCount s) (testCaseDeferred s)"
    and dom: "(specInfoDeferred s specKey = None) = (specInfo s specKey = None)"
    by (simp_all add: consistent_def)
  from dom g obtain info where info: "specInfo s specKey = Some info" by auto
  have rg: "resolved g" using settled_resolved [OF sg g] .
  show ?thesis
  proof (cases "testCaseDeferred s testCaseKey")
    case None
    then show ?thesis
      using g rg info pid sk tk
      by (simp add: onTestCaseResult_def Let_def resolved_def resolve_def newDeferred_def)
  next
    case (Some cg)
    have "resolved cg" using settled_resolved [OF tg Some] .
    then show ?thesis
      using g rg info pid sk tk Some
      by (simp add: onTestCaseResult_def Let_def)
  qed
qed

lemma consistent_reachable: "consistent (run es (initial env))"
  by (rule consistent_run) (rule consistent_initial)

subsection \<open>The case-result handler\<close>

text \<open>
  In every state of a run: when the spec key of a case result has a per-spec gate, the
  spec record exists and \<^verbatim>\<open>onTestCaseResult\<close> returns; when the key has no gate, the
  handler throws a TypeError at \<^verbatim>\<open>this.specInfoDeferred[specKey].promise\<close> and leaves
  the state as it was.
\<close>

lemma case_result_needs_spec_gate:
  assumes "s = run es (initial env)"
      and "specKey = getSpecKey (projectBySpecMap s (t_specName test)) (t_specName test)"
  shows "(specInfoDeferred s specKey \<noteq> None \<longrightarrow>
            specInfo s specKey \<noteq> None \<and> failureOf (onTestCaseResult test r s) = None)
       \<and> (specInfoDeferred s specKey = None \<longrightarrow>
            onTestCaseResult test r s = Inl (TypeError, s))"
proof (intro conjI impI)
  assume gate: "specInfoDeferred s specKey \<noteq> None"
  have c: "consistent s" using assms(1) consistent_reachable by simp
  from onTestCaseResult_returns [OF c refl assms(2) refl gate, of r]
  obtain info s' where "specInfo s specKey = Some info" "onTestCaseResult test r s = Inr s'"
    by blast
  then show "specInfo s specKey \<noteq> None" "failureOf (onTestCaseResult test r s) = None"
    by (simp_all add: failureOf_def)
next
  assume "specInfoDeferred s specKey = None"
  then show "onTestCaseResult test r s = Inl (TypeError, s)"
    using assms(2) by (simp add: onTestCaseResult_def Let_def)
qed

text \<open>
  C5. \<^verbatim>\<open>onTestCaseResult\<close> reads \<^verbatim>\<open>this.specInfoDeferred[specKey].promise\<close> without
  looking whether the gate is there, unlike its own lines for the per-case gate, which
  create the gate when \<^verbatim>\<open>onTestCaseStart\<close> was not called, and unlike
  \<^verbatim>\<open>onTestCaseStart\<close>, which creates the spec record and its gate when they are
  missing. A case result that arrives before the file start and before any case start of
  its spec finds no gate under its key and the handler throws; so it does when the file
  start was called but still waits for the report directory.
\<close>

theorem case_result_before_spec_start_throws:
  "specInfoDeferred exReady ''undefined:a.test.js'' = None
   \<and> specInfo exReady ''undefined:a.test.js'' = None
   \<and> failureOf (onTestCaseResult exTest (exResult ''passed'') exReady) = Some TypeError
   \<and> awaitingReportDir (run [RunStart 1, FileStart exTest] (initial None)) = [exTest]
   \<and> specInfoDeferred (run [RunStart 1, FileStart exTest] (initial None)) ''p:a.test.js'' = None
   \<and> failureOf (onTestCaseResult exTest (exResult ''passed'')
        (run [RunStart 1, FileStart exTest] (initial None))) = Some TypeError"
  by (simp add: run_defs Let_def)

lemma lookupCase_after:
  "specInfo s' = (specInfo s)(specKey \<mapsto> info\<lparr> si_testCaseList := AList.update testCaseKey tc l \<rparr>)
   \<Longrightarrow> lookupCase s' specKey k = ((map_of l)(testCaseKey \<mapsto> tc)) k"
  by (simp add: lookupCase_def update_conv')

text \<open>
  C3, as the code has it. In every state of a run where the spec has its gate and the
  test case key has no record, \<^verbatim>\<open>onTestCaseResult\<close> returns, the key then has a
  record with exactly the one attempt, no timestamp, mode skip and worker index \<open>-1\<close>,
  whatever the status of the result, and the records under the other keys are as before.
\<close>

theorem case_result_without_start_synthesizes_skip:
  assumes "s = run es (initial env)"
      and "projectId = projectBySpecMap s (t_specName test)"
      and "specKey = getSpecKey projectId (t_specName test)"
      and "testCaseKey = getTestCaseKey projectId (t_specName test) (r_testId r)"
      and "specInfoDeferred s specKey \<noteq> None"
      and "lookupCase s specKey testCaseKey = None"
  shows "\<exists>s'. onTestCaseResult test r s = Inr s'
      \<and> lookupCase s' specKey testCaseKey =
          Some \<lparr> tc_id = r_testId r, tc_timestamps = [], tc_title = r_fullTitle r,
                 tc_mode = Some ''skip'', tc_result = [r],
                 tc_worker = \<lparr> workerIndex = - 1, parallelIndex = - 1 \<rparr>,
                 tc_config = t_rootDir test \<rparr>
      \<and> (\<forall>k. k \<noteq> testCaseKey \<longrightarrow> lookupCase s' specKey k = lookupCase s specKey k)"
proof -
  have c: "consistent s" using assms(1) consistent_reachable by simp
  from onTestCaseResult_returns [OF c assms(2,3,4,5)]
  obtain info s' where info: "specInfo s specKey = Some info"
    and out: "onTestCaseResult test r s = Inr s'"
    and si: "specInfo s' = (specInfo s)(specKey \<mapsto> info\<lparr> si_testCaseList :=
            AList.update testCaseKey
              ((case map_of (si_testCaseList info) testCaseKey of
                  None \<Rightarrow> skippedTestCase (jestWorkerId s) test r []
                | Some tc \<Rightarrow> tc)\<lparr> tc_result :=
                    tc_result (case map_of (si_testCaseList info) testCaseKey of
                                 None \<Rightarrow> skippedTestCase (jestWorkerId s) test r []
                               | Some tc \<Rightarrow> tc) @ [r] \<rparr>)
              (si_testCaseList info) \<rparr>)"
    by blast
  from assms(6) info have absent: "map_of (si_testCaseList info) testCaseKey = None"
    by (simp add: lookupCase_def)
  have old: "lookupCase s specKey k = map_of (si_testCaseList info) k" for k
    using info by (simp add: lookupCase_def)
  show ?thesis
    using out lookupCase_after [OF si] absent old
    by (simp add: skippedTestCase_def getWorker_def Let_def)
qed

text \<open>
  The claim C3 as the spec words it fails on a result with status \<^verbatim>\<open>passed\<close> that has no
  start: the record made for it has mode skip and the worker index of a skipped test.
\<close>

theorem case_result_without_start_counterexample:
  "map_option tc_mode (lookupCase (run [CaseResult exTest (exResult ''passed'')] exStarted)
       ''p:a.test.js'' ''p:a.test.js:t1'') = Some (Some ''skip'')
   \<and> map_option tc_worker (lookupCase (run [CaseResult exTest (exResult ''passed'')] exStarted)
       ''p:a.test.js'' ''p:a.test.js:t1'') = Some \<lparr> workerIndex = - 1, parallelIndex = - 1 \<rparr>
   \<and> r_status (exResult ''passed'') = ''passed''"
  by (simp add: run_defs Let_def)

theorem case_result_without_start_synthesizes_skip_witness:
  "specInfoDeferred exStarted ''p:a.test.js'' \<noteq> None
   \<and> lookupCase exStarted ''p:a.test.js'' ''p:a.test.js:t1'' = None
   \<and> (\<exists>s'. onTestCaseResult exTest (exResult ''passed'') exStarted = Inr s'
      \<and> map_option tc_mode (lookupCase s' ''p:a.test.js'' ''p:a.test.js:t1'') = Some (Some ''skip'')
      \<and> map_option tc_result (lookupCase s' ''p:a.test.js'' ''p:a.test.js:t1'') = Some [exResult ''passed''])"
proof -
  have p: "Some ''p'' = projectBySpecMap exStarted (t_specName exTest)"
    by (simp add: run_defs Let_def)
  have k: "''p:a.test.js'' = getSpecKey (Some ''p'') (t_specName exTest)"
    by (simp add: run_defs)
  have tk: "''p:a.test.js:t1'' = getTestCaseKey (Some ''p'') (t_specName exTest) (r_testId (exResult ''passed''))"
    by (simp add: run_defs)
  have g: "specInfoDeferred exStarted ''p:a.test.js'' \<noteq> None"
    by (simp add: run_defs Let_def)
  have a: "lookupCase exStarted ''p:a.test.js'' ''p:a.test.js:t1'' = None"
    by (simp add: run_defs Let_def)
  from case_result_without_start_synthesizes_skip [OF exStarted_def p k tk g a]
  obtain s' where "onTestCaseResult exTest (exResult ''passed'') exStarted = Inr s'"
    "lookupCase s' ''p:a.test.js'' ''p:a.test.js:t1'' =
          Some \<lparr> tc_id = r_testId (exResult ''passed''), tc_timestamps = [], tc_title = r_fullTitle (exResult ''passed''),
                 tc_mode = Some ''skip'', tc_result = [exResult ''passed''],
                 tc_worker = \<lparr> workerIndex = - 1, parallelIndex = - 1 \<rparr>,
                 tc_config = t_rootDir exTest \<rparr>"
    by blast
  then show ?thesis using g a by simp
qed

subsection \<open>Attempts of one test\<close>

lemma onTestCaseStart_frame:
  assumes c: "consistent s"
      and sk: "specKey = getSpecKey (projectBySpecMap s (t_specName test)) (t_specName test)"
  shows "projectBySpecMap (onTestCaseStart test info s) = projectBySpecMap s"
    and "specInfoDeferred (onTestCaseStart test info s) specKey \<noteq> None"
    and "attemptsOf (onTestCaseStart test info s) specKey k = attemptsOf s specKey k"
proof -
  show "projectBySpecMap (onTestCaseStart test info s) = projectBySpecMap s"
    by (simp add: onTestCaseStart_def Let_def split: option.splits)
  from c have dom: "(specInfoDeferred s specKey = None) = (specInfo s specKey = None)"
    by (simp add: consistent_def)
  show "specInfoDeferred (onTestCaseStart test info s) specKey \<noteq> None"
    using dom sk by (auto simp: onTestCaseStart_def Let_def split: option.splits)
  show "attemptsOf (onTestCaseStart test info s) specKey k = attemptsOf s specKey k"
    using sk
    by (auto simp: onTestCaseStart_def Let_def attemptsOf_def lookupCase_def update_conv'
             split: option.splits)
qed

lemma onTestCaseResult_frame:
  assumes c: "consistent s"
      and pid: "projectId = projectBySpecMap s (t_specName test)"
      and sk: "specKey = getSpecKey projectId (t_specName test)"
      and tk: "testCaseKey = getTestCaseKey projectId (t_specName test) (r_testId r)"
      and gate: "specInfoDeferred s specKey \<noteq> None"
  shows "projectBySpecMap (stateAfter (onTestCaseResult test r s)) = projectBySpecMap s"
    and "specInfoDeferred (stateAfter (onTestCaseResult test r s)) specKey \<noteq> None"
    and "attemptsOf (stateAfter (onTestCaseResult test r s)) specKey testCaseKey
           = attemptsOf s specKey testCaseKey @ [r]"
proof -
  from onTestCaseResult_returns [OF c pid sk tk gate]
  obtain info s' where info: "specInfo s specKey = Some info"
    and out: "onTestCaseResult test r s = Inr s'"
    and si: "specInfo s' = (specInfo s)(specKey \<mapsto> info\<lparr> si_testCaseList :=
            AList.update testCaseKey
              ((case map_of (si_testCaseList info) testCaseKey of
                  None \<Rightarrow> skippedTestCase (jestWorkerId s) test r []
                | Some tc \<Rightarrow> tc)\<lparr> tc_result :=
                    tc_result (case map_of (si_testCaseList info) testCaseKey of
                                 None \<Rightarrow> skippedTestCase (jestWorkerId s) test r []
                               | Some tc \<Rightarrow> tc) @ [r] \<rparr>)
              (si_testCaseList info) \<rparr>)"
    and pm: "projectBySpecMap s' = projectBySpecMap s"
    and sg: "specInfoDeferred s' = specInfoDeferred s"
    by blast
  have sa: "stateAfter (onTestCaseResult test r s) = s'"
    using out by (simp add: stateAfter_def)
  show "projectBySpecMap (stateAfter (onTestCaseResult test r s)) = projectBySpecMap s"
    using sa pm by simp
  show "specInfoDeferred (stateAfter (onTestCaseResult test r s)) specKey \<noteq> None"
    using sa sg gate by simp
  have old: "lookupCase s specKey testCaseKey = map_of (si_testCaseList info) testCaseKey"
    using info by (simp add: lookupCase_def)
  show "attemptsOf (stateAfter (onTestCaseResult test r s)) specKey testCaseKey
           = attemptsOf s specKey testCaseKey @ [r]"
    unfolding sa attemptsOf_def lookupCase_after [OF si] old
    by (simp add: skippedTestCase_def split: option.splits)
qed

lemma case_events_attempts:
  assumes "consistent s"
      and "projectId = projectBySpecMap s (t_specName test)"
      and "specKey = getSpecKey projectId (t_specName test)"
      and "testCaseKey = getTestCaseKey projectId (t_specName test) testId"
      and "specInfoDeferred s specKey \<noteq> None"
      and "\<forall>e \<in> set es. caseEventOf test testId e"
  shows "projectBySpecMap (run es s) (t_specName test) = projectId
       \<and> attemptsOf (run es s) specKey testCaseKey
           = attemptsOf s specKey testCaseKey @ resultsIn es"
  using assms
proof (induction es arbitrary: s)
  case Nil
  then show ?case by simp
next
  case (Cons e es)
  from Cons.prems(6) have ev: "caseEventOf test testId e"
    and rest: "\<forall>e \<in> set es. caseEventOf test testId e" by simp_all
  show ?case
  proof (cases e)
    case (CaseStart t i)
    with ev have sn: "t_specName t = t_specName test" and id: "i_testId i = testId" by simp_all
    have sk: "specKey = getSpecKey (projectBySpecMap s (t_specName t)) (t_specName t)"
      using Cons.prems(2,3) sn by simp
    note fr = onTestCaseStart_frame [OF Cons.prems(1) sk, of i]
    have c': "consistent (onTestCaseStart t i s)"
      using Cons.prems(1) by (rule consistent_onTestCaseStart)
    have pid': "projectId = projectBySpecMap (onTestCaseStart t i s) (t_specName test)"
      using fr(1) Cons.prems(2) by simp
    from Cons.IH [OF c' pid' Cons.prems(3,4) fr(2) rest] fr(3) [of testCaseKey]
    show ?thesis using CaseStart by simp
  next
    case (CaseResult t r)
    with ev have sn: "t_specName t = t_specName test" and id: "r_testId r = testId" by simp_all
    have pid: "projectId = projectBySpecMap s (t_specName t)"
      using Cons.prems(2) sn by simp
    have sk: "specKey = getSpecKey projectId (t_specName t)"
      using Cons.prems(3) sn by simp
    have tk: "testCaseKey = getTestCaseKey projectId (t_specName t) (r_testId r)"
      using Cons.prems(4) sn id by simp
    note fr = onTestCaseResult_frame [OF Cons.prems(1) pid sk tk Cons.prems(5)]
    have c': "consistent (stateAfter (onTestCaseResult t r s))"
      using Cons.prems(1) by (rule consistent_onTestCaseResult)
    have pid': "projectId = projectBySpecMap (stateAfter (onTestCaseResult t r s)) (t_specName test)"
      using fr(1) Cons.prems(2) by simp
    from Cons.IH [OF c' pid' Cons.prems(3,4) fr(2) rest] fr(3)
    show ?thesis using CaseResult by simp
  qed (use ev in simp_all)
qed

text \<open>
  The spec key is the project id, a colon and the spec name; the test case key is the
  spec key, a colon and the test id. For the case events of one logical test (starts and
  results that carry its spec name and its test id), delivered in any state of a run
  where the spec has its gate, or beginning with a start: the key computed from the state
  stays the same, and the attempts recorded under it grow by the outcomes of the result
  events, in their order.
\<close>

lemma key_stable_attempts_counted:
  assumes "s = run es0 (initial env)"
      and "projectId = projectBySpecMap s (t_specName test)"
      and "specKey = getSpecKey projectId (t_specName test)"
      and "testCaseKey = getTestCaseKey projectId (t_specName test) testId"
      and "specInfoDeferred s specKey \<noteq> None \<or> beginsWithStart es"
      and "\<forall>e \<in> set es. caseEventOf test testId e"
  shows "getSpecKey (Some p) specName = p @ '':'' @ specName
       \<and> getTestCaseKey pid specName tid = getSpecKey pid specName @ '':'' @ tid
       \<and> getTestCaseKey (projectBySpecMap (run es s) (t_specName test)) (t_specName test) testId
           = testCaseKey
       \<and> attemptsOf (run es s) specKey testCaseKey
           = attemptsOf s specKey testCaseKey @ resultsIn es
       \<and> (lookupCase s specKey testCaseKey = None \<longrightarrow>
            length (attemptsOf (run es s) specKey testCaseKey) = length (resultsIn es))"
proof -
  have c: "consistent s" using assms(1) consistent_reachable by simp
  have ab: "projectBySpecMap (run es s) (t_specName test) = projectId
       \<and> attemptsOf (run es s) specKey testCaseKey
           = attemptsOf s specKey testCaseKey @ resultsIn es"
  proof (cases "specInfoDeferred s specKey \<noteq> None")
    case True
    then show ?thesis using case_events_attempts [OF c assms(2-4) _ assms(6)] by simp
  next
    case False
    with assms(5) obtain t i es' where es: "es = CaseStart t i # es'"
      by (cases es rule: beginsWithStart.cases) auto
    from assms(6) es have sn: "t_specName t = t_specName test"
      and rest: "\<forall>e \<in> set es'. caseEventOf test testId e" by simp_all
    have sk: "specKey = getSpecKey (projectBySpecMap s (t_specName t)) (t_specName t)"
      using assms(2,3) sn by simp
    note fr = onTestCaseStart_frame [OF c sk, of i]
    have c': "consistent (onTestCaseStart t i s)"
      using c by (rule consistent_onTestCaseStart)
    have pid': "projectId = projectBySpecMap (onTestCaseStart t i s) (t_specName test)"
      using fr(1) assms(2) by simp
    from case_events_attempts [OF c' pid' assms(3,4) fr(2) rest] fr(3) [of testCaseKey]
    show ?thesis using es by simp
  qed
  then show ?thesis using assms(4)
    by (simp add: getSpecKey_def getTestCaseKey_def template_def attemptsOf_def)
qed

lemma key_stable_attempts_counted_example:
  "specInfoDeferred exStarted ''p:a.test.js'' \<noteq> None
   \<and> list_all (caseEventOf exTest ''t1'')
        [CaseStart exTest (exStart 100), CaseResult exTest (exResult ''failed''),
         CaseStart exTest (exStart 110), CaseResult exTest (exResult ''passed'')]
   \<and> lookupCase exStarted ''p:a.test.js'' ''p:a.test.js:t1'' = None
   \<and> attemptsOf (run [CaseStart exTest (exStart 100), CaseResult exTest (exResult ''failed''),
         CaseStart exTest (exStart 110), CaseResult exTest (exResult ''passed'')] exStarted)
         ''p:a.test.js'' ''p:a.test.js:t1'' = [exResult ''failed'', exResult ''passed'']"
proof -
  have p: "Some ''p'' = projectBySpecMap exStarted (t_specName exTest)"
    by (simp add: run_defs Let_def)
  have k: "''p:a.test.js'' = getSpecKey (Some ''p'') (t_specName exTest)"
    by (simp add: run_defs)
  have tk: "''p:a.test.js:t1'' = getTestCaseKey (Some ''p'') (t_specName exTest) ''t1''"
    by (simp add: run_defs)
  have g: "specInfoDeferred exStarted ''p:a.test.js'' \<noteq> None"
    by (simp add: run_defs Let_def)
  have a: "lookupCase exStarted ''p:a.test.js'' ''p:a.test.js:t1'' = None"
    by (simp add: run_defs Let_def)
  have ev: "\<forall>e \<in> set [CaseStart exTest (exStart 100), CaseResult exTest (exResult ''failed''),
         CaseStart exTest (exStart 110), CaseResult exTest (exResult ''passed'')].
           caseEventOf exTest ''t1'' e"
    by (simp add: exStart_def exResult_def)
  from key_stable_attempts_counted [OF exStarted_def p k tk disjI1 [OF g] ev] a
  show ?thesis using g ev by (simp add: attemptsOf_def list_all_iff)
qed

text \<open>
  C9. The two key functions are as the claim has them. The attempts of one logical test
  are not always kept under one key. \<^verbatim>\<open>onTestCaseStart\<close> provides for a case start
  that comes before the file start, but it reads the project id from
  \<^verbatim>\<open>projectBySpecMap\<close>, which only \<^verbatim>\<open>onTestFileStart\<close> fills: the start of the
  test is recorded under the key of an undefined project and, once the file start has
  run, its result under the key of the project, in a second record made as for a test
  whose start was not seen. And a result that comes first, before the spec has a gate,
  is not recorded at all.
\<close>

theorem case_start_before_file_start_splits_key:
  "getSpecKey (Some ''p'') ''a.test.js'' = ''p'' @ '':'' @ ''a.test.js''
   \<and> getTestCaseKey (Some ''p'') ''a.test.js'' ''t1''
       = getSpecKey (Some ''p'') ''a.test.js'' @ '':'' @ ''t1''
   \<and> getTestCaseKey (projectBySpecMap exReady (t_specName exTest)) (t_specName exTest)
         (i_testId (exStart 100)) = ''undefined:a.test.js:t1''
   \<and> getTestCaseKey
         (projectBySpecMap (run [CaseStart exTest (exStart 100), FileStart exTest] exReady)
            (t_specName exTest))
         (t_specName exTest) (r_testId (exResult ''passed'')) = ''p:a.test.js:t1''
   \<and> map_option tc_result (lookupCase exRaced ''undefined:a.test.js'' ''undefined:a.test.js:t1'')
       = Some []
   \<and> map_option tc_timestamps
         (lookupCase exRaced ''undefined:a.test.js'' ''undefined:a.test.js:t1'') = Some [100]
   \<and> map_option tc_result (lookupCase exRaced ''p:a.test.js'' ''p:a.test.js:t1'')
       = Some [exResult ''passed'']
   \<and> map_option tc_mode (lookupCase exRaced ''p:a.test.js'' ''p:a.test.js:t1'')
       = Some (Some ''skip'')
   \<and> resultsIn [CaseResult exTest (exResult ''passed'')] = [exResult ''passed'']
   \<and> attemptsOf (run [CaseResult exTest (exResult ''passed'')] exReady)
         ''undefined:a.test.js'' ''undefined:a.test.js:t1'' = []
   \<and> specInfo (run [CaseResult exTest (exResult ''passed'')] exReady) ''undefined:a.test.js''
       = None"
  by (simp add: run_defs Let_def)

subsection \<open>The file-start handler\<close>

text \<open>
  C1. \<^verbatim>\<open>onTestFileStart\<close> assigns a new record to \<^verbatim>\<open>this.specInfo[specKey]\<close> without
  looking for an existing one, unlike \<^verbatim>\<open>onTestCaseStart\<close>, which creates the record
  only when it is missing. In the run below the file start waits for the report
  directory, the test starts and reports passed under the same spec key, and the file
  start then resumes: the record made by the case events, with its one attempt, is
  replaced by an empty one.
\<close>

theorem file_start_resumed_discards_attempts:
  "awaitingReportDir exSuspended = [exTest]
   \<and> attemptsOf exSuspended ''p:a.test.js'' ''p:a.test.js:t1'' = [exResult ''passed'']
   \<and> map_option si_testCaseList (specInfo (deliver ReportDirCreated exSuspended) ''p:a.test.js'')
       = Some []
   \<and> attemptsOf (deliver ReportDirCreated exSuspended) ''p:a.test.js'' ''p:a.test.js:t1'' = []"
  by (simp add: exSuspended_def run_defs Let_def)

subsection \<open>Gates\<close>

lemma resume_testCaseDeferred:
  "testCaseDeferred (onTestFileStart_resume test s) = testCaseDeferred s"
  by (simp add: onTestFileStart_resume_def Let_def)

lemma wake_testCaseDeferred:
  "testCaseDeferred (foldl (\<lambda>acc test. onTestFileStart_resume test acc) s ts) = testCaseDeferred s"
  by (induction ts arbitrary: s) (simp_all add: resume_testCaseDeferred)

lemma declaredTest_gates:
  "specInfoDeferred (fst (declaredTest projectId test r s)) = specInfoDeferred s
   \<and> testCaseDeferred (fst (declaredTest projectId test r s)) = testCaseDeferred s
   \<and> resultsDeferred (fst (declaredTest projectId test r s)) = resultsDeferred s"
  by (simp add: declaredTest_def Let_def split: option.splits)

lemma declaredTests_gates:
  "specInfoDeferred (fst (declaredTests projectId test rs s)) = specInfoDeferred s
   \<and> testCaseDeferred (fst (declaredTests projectId test rs s)) = testCaseDeferred s
   \<and> resultsDeferred (fst (declaredTests projectId test rs s)) = resultsDeferred s"
proof (induction rs arbitrary: s)
  case Nil
  then show ?case by simp
next
  case (Cons r rs)
  from Cons.IH [of "fst (declaredTest projectId test r s)"] declaredTest_gates [of projectId test r s]
  show ?case by (auto split: prod.splits)
qed

lemma onTestFileResult_gates:
  "specInfoDeferred (deliver (FileResult test tr) s) = specInfoDeferred s
   \<and> testCaseDeferred (deliver (FileResult test tr) s) = testCaseDeferred s
   \<and> resultsDeferred (deliver (FileResult test tr) s) = resultsDeferred s"
proof -
  obtain s1 fs where d: "declaredTests (projectBySpecMap s (t_specName test)) test (tr_testResults tr) s = (s1, fs)"
    by (cases "declaredTests (projectBySpecMap s (t_specName test)) test (tr_testResults tr) s")
  from declaredTests_gates [of "projectBySpecMap s (t_specName test)" test "tr_testResults tr" s] d
  have "specInfoDeferred s1 = specInfoDeferred s \<and> testCaseDeferred s1 = testCaseDeferred s
        \<and> resultsDeferred s1 = resultsDeferred s" by simp
  then show ?thesis using d
    by (simp add: onTestFileResult_def Let_def stateAfter_def split: option.splits)
qed

lemma onTestCaseResult_keeps_gates:
  "specInfoDeferred (stateAfter (onTestCaseResult test r s)) = specInfoDeferred s
   \<and> (testCaseDeferred s k = Some g \<longrightarrow>
        testCaseDeferred (stateAfter (onTestCaseResult test r s)) k = Some g)"
  by (auto simp: onTestCaseResult_def Let_def stateAfter_def split: option.splits)

lemma onTestCaseStart_keeps_spec_gate:
  assumes "consistent s" and "specInfoDeferred s k = Some g"
  shows "specInfoDeferred (onTestCaseStart test info s) k = Some g"
proof -
  from assms(1) have "(specInfoDeferred s k = None) = (specInfo s k = None)"
    by (simp add: consistent_def)
  with assms(2) have "specInfo s k \<noteq> None" by simp
  then show ?thesis using assms(2)
    by (auto simp: onTestCaseStart_def Let_def split: option.splits)
qed

lemma onTestCaseStart_keeps_case_gate:
  assumes "testCaseDeferred s k = Some g"
      and "k = getTestCaseKey (projectBySpecMap s (t_specName test)) (t_specName test) (i_testId info)
           \<longrightarrow> lookupCase s (getSpecKey (projectBySpecMap s (t_specName test)) (t_specName test)) k \<noteq> None"
  shows "testCaseDeferred (onTestCaseStart test info s) k = Some g"
  using assms
  by (auto simp: onTestCaseStart_def Let_def lookupCase_def split: option.splits)

lemma resume_specInfoDeferred:
  "k \<noteq> getSpecKey (Some (t_projectId test)) (t_specName test) \<Longrightarrow>
   specInfoDeferred (onTestFileStart_resume test s) k = specInfoDeferred s k"
  by (simp add: onTestFileStart_resume_def Let_def)

lemma wake_specInfoDeferred:
  "\<forall>t \<in> set ts. k \<noteq> getSpecKey (Some (t_projectId t)) (t_specName t) \<Longrightarrow>
   specInfoDeferred (foldl (\<lambda>acc test. onTestFileStart_resume test acc) s ts) k
     = specInfoDeferred s k"
  by (induction ts arbitrary: s) (simp_all add: resume_specInfoDeferred)

lemma spec_gate_kept:
  assumes "consistent s" and "specInfoDeferred s k = Some g"
      and "\<forall>t. e = FileStart t \<longrightarrow> k \<noteq> getSpecKey (Some (t_projectId t)) (t_specName t)"
      and "e = ReportDirCreated \<longrightarrow>
             (\<forall>t \<in> set (awaitingReportDir s). k \<noteq> getSpecKey (Some (t_projectId t)) (t_specName t))"
  shows "specInfoDeferred (deliver e s) k = Some g"
proof (cases e)
  case (CaseStart t i)
  then show ?thesis using onTestCaseStart_keeps_spec_gate [OF assms(1,2)] by simp
next
  case (CaseResult t r)
  then show ?thesis using onTestCaseResult_keeps_gates [of t r s] assms(2) by simp
next
  case (FileResult t tr)
  then show ?thesis using onTestFileResult_gates [of t tr s] assms(2) by simp
next
  case ReportDirCreated
  then show ?thesis using assms(2,4)
    by (simp add: onRunStart_resume_def Let_def wake_specInfoDeferred)
next
  case (FileStart t)
  then show ?thesis using assms(2,3)
    by (simp add: onTestFileStart_def Let_def resume_specInfoDeferred)
qed (use assms in \<open>simp_all add: onRunStart_def\<close>)

lemma case_gate_kept:
  assumes "testCaseDeferred s k = Some g"
      and "\<forall>t i. e = CaseStart t i
              \<and> k = getTestCaseKey (projectBySpecMap s (t_specName t)) (t_specName t) (i_testId i)
             \<longrightarrow> lookupCase s (getSpecKey (projectBySpecMap s (t_specName t)) (t_specName t)) k \<noteq> None"
  shows "testCaseDeferred (deliver e s) k = Some g"
proof (cases e)
  case (CaseStart t i)
  then show ?thesis using onTestCaseStart_keeps_case_gate [OF assms(1), of t i] assms(2) by simp
next
  case (CaseResult t r)
  then show ?thesis using onTestCaseResult_keeps_gates [of t r s k g] assms(1) by simp
next
  case (FileResult t tr)
  then show ?thesis using onTestFileResult_gates [of t tr s] assms(1) by simp
next
  case ReportDirCreated
  then show ?thesis using assms(1)
    by (simp add: onRunStart_resume_def Let_def wake_testCaseDeferred)
next
  case (FileStart t)
  then show ?thesis using assms(1)
    by (simp add: onTestFileStart_def Let_def resume_testCaseDeferred)
qed (use assms in \<open>simp_all add: onRunStart_def\<close>)

lemma results_gate_kept:
  assumes "resultsDeferred s k = Some g"
      and "\<forall>t r. e = CaseResult t r \<longrightarrow>
             k \<noteq> getTestCaseKey (projectBySpecMap s (t_specName t)) (t_specName t) (r_testId r)"
  shows "resultsDeferred (deliver e s) k = Some g"
proof (cases e)
  case (CaseStart t i)
  then show ?thesis using assms(1)
    by (auto simp: onTestCaseStart_def Let_def split: option.splits)
next
  case (CaseResult t r)
  then show ?thesis using assms
    by (auto simp: onTestCaseResult_def Let_def stateAfter_def split: option.splits)
next
  case (FileResult t tr)
  then show ?thesis using onTestFileResult_gates [of t tr s] assms(1) by simp
next
  case ReportDirCreated
  have "resultsDeferred (foldl (\<lambda>acc test. onTestFileStart_resume test acc) s0 ts) = resultsDeferred s0" for s0 ts
    by (induction ts arbitrary: s0) (simp_all add: onTestFileStart_resume_def Let_def)
  with ReportDirCreated show ?thesis using assms(1)
    by (simp add: onRunStart_resume_def Let_def)
next
  case (FileStart t)
  then show ?thesis using assms(1)
    by (simp add: onTestFileStart_def onTestFileStart_resume_def Let_def)
qed (use assms in \<open>simp_all add: onRunStart_def\<close>)

lemma result_gate_fresh:
  assumes c: "consistent s" and out: "onTestCaseResult test r s = Inr s'"
      and tk: "testCaseKey = getTestCaseKey (projectBySpecMap s (t_specName test)) (t_specName test) (r_testId r)"
  shows "\<exists>g'. resultsDeferred s' testCaseKey = Some g' \<and> d_resolveCalls g' = 1
           \<and> (\<forall>k g. resultsDeferred s k = Some g \<longrightarrow> d_ident g < d_ident g')"
proof -
  have gate: "specInfoDeferred s (getSpecKey (projectBySpecMap s (t_specName test)) (t_specName test)) \<noteq> None"
    using out by (auto simp: onTestCaseResult_def Let_def split: option.splits)
  from onTestCaseResult_returns [OF c refl refl tk gate] out
  have rd: "resultsDeferred s' = (resultsDeferred s)(testCaseKey \<mapsto>
           resolve (newDeferred (case testCaseDeferred s testCaseKey of
              None \<Rightarrow> Suc (deferredCount s) | Some g \<Rightarrow> deferredCount s)))"
    by auto
  from c have "settled (deferredCount s) (resultsDeferred s)" by (simp add: consistent_def)
  then have old: "resultsDeferred s k = Some g \<Longrightarrow> d_ident g < deferredCount s" for k g
    by (simp add: settled_def)
  show ?thesis unfolding rd
    by (auto simp: resolve_def newDeferred_def dest: old split: option.splits)
qed

text \<open>
  C4, as the code has it. In every state of a run,
  \<^item> every gate kept under a key, per spec, per case or per case result, was resolved
    exactly once;
  \<^item> a per-spec gate stays the same object under every event but a file start, called
    or resumed, of the gate's own spec key;
  \<^item> a per-case gate stays the same object under every event but a case start of the
    gate's own test case key while the test case record of that key is missing;
  \<^item> a per-case-result gate stays the same object under every event but a case result
    of the gate's own test case key;
  \<^item> a case result that returns puts a new per-case-result gate under its key, resolved
    once and constructed after every gate of that table.
\<close>

theorem keyed_gates_resolved_once:
  assumes "s = run es (initial env)"
  shows "(\<forall>k g. specInfoDeferred s k = Some g \<or> testCaseDeferred s k = Some g
                  \<or> resultsDeferred s k = Some g \<longrightarrow> d_resolveCalls g = 1)
       \<and> (\<forall>k g. specInfoDeferred s k = Some g
               \<and> (\<forall>t. e = FileStart t \<longrightarrow> k \<noteq> getSpecKey (Some (t_projectId t)) (t_specName t))
               \<and> (e = ReportDirCreated \<longrightarrow>
                    (\<forall>t \<in> set (awaitingReportDir s).
                        k \<noteq> getSpecKey (Some (t_projectId t)) (t_specName t)))
             \<longrightarrow> specInfoDeferred (deliver e s) k = Some g)
       \<and> (\<forall>k g. testCaseDeferred s k = Some g
               \<and> (\<forall>t i. e = CaseStart t i
                     \<and> k = getTestCaseKey (projectBySpecMap s (t_specName t)) (t_specName t)
                             (i_testId i)
                     \<longrightarrow> lookupCase s
                           (getSpecKey (projectBySpecMap s (t_specName t)) (t_specName t)) k
                           \<noteq> None)
             \<longrightarrow> testCaseDeferred (deliver e s) k = Some g)
       \<and> (\<forall>k g. resultsDeferred s k = Some g
               \<and> (\<forall>t r. e = CaseResult t r \<longrightarrow>
                     k \<noteq> getTestCaseKey (projectBySpecMap s (t_specName t)) (t_specName t)
                            (r_testId r))
             \<longrightarrow> resultsDeferred (deliver e s) k = Some g)
       \<and> (\<forall>s'. onTestCaseResult test r s = Inr s' \<longrightarrow>
             (\<exists>g'. resultsDeferred s'
                      (getTestCaseKey (projectBySpecMap s (t_specName test)) (t_specName test)
                         (r_testId r)) = Some g'
                 \<and> d_resolveCalls g' = 1
                 \<and> (\<forall>k g. resultsDeferred s k = Some g \<longrightarrow> d_ident g < d_ident g')))"
proof -
  have c: "consistent s" using assms consistent_reachable by simp
  then have once: "\<forall>k g. specInfoDeferred s k = Some g \<or> testCaseDeferred s k = Some g
                  \<or> resultsDeferred s k = Some g \<longrightarrow> d_resolveCalls g = 1"
    by (auto simp: consistent_def settled_def)
  have spec: "\<forall>k g. specInfoDeferred s k = Some g
               \<and> (\<forall>t. e = FileStart t \<longrightarrow> k \<noteq> getSpecKey (Some (t_projectId t)) (t_specName t))
               \<and> (e = ReportDirCreated \<longrightarrow>
                    (\<forall>t \<in> set (awaitingReportDir s).
                        k \<noteq> getSpecKey (Some (t_projectId t)) (t_specName t)))
             \<longrightarrow> specInfoDeferred (deliver e s) k = Some g"
    using spec_gate_kept [OF c] by blast
  have cas: "\<forall>k g. testCaseDeferred s k = Some g
               \<and> (\<forall>t i. e = CaseStart t i
                     \<and> k = getTestCaseKey (projectBySpecMap s (t_specName t)) (t_specName t)
                             (i_testId i)
                     \<longrightarrow> lookupCase s
                           (getSpecKey (projectBySpecMap s (t_specName t)) (t_specName t)) k
                           \<noteq> None)
             \<longrightarrow> testCaseDeferred (deliver e s) k = Some g"
    using case_gate_kept by blast
  have rk: "\<forall>k g. resultsDeferred s k = Some g
               \<and> (\<forall>t r. e = CaseResult t r \<longrightarrow>
                     k \<noteq> getTestCaseKey (projectBySpecMap s (t_specName t)) (t_specName t)
                            (r_testId r))
             \<longrightarrow> resultsDeferred (deliver e s) k = Some g"
    using results_gate_kept by blast
  have res: "\<forall>s'. onTestCaseResult test r s = Inr s' \<longrightarrow>
             (\<exists>g'. resultsDeferred s'
                      (getTestCaseKey (projectBySpecMap s (t_specName test)) (t_specName test)
                         (r_testId r)) = Some g'
                 \<and> d_resolveCalls g' = 1
                 \<and> (\<forall>k g. resultsDeferred s k = Some g \<longrightarrow> d_ident g < d_ident g'))"
    using result_gate_fresh [OF c _ refl] by blast
  from once spec cas rk res show ?thesis by blast
qed

theorem keyed_gates_resolved_once_witness:
  "specInfoDeferred exOnce ''p:a.test.js'' = Some \<lparr> d_ident = 1, d_resolveCalls = 1 \<rparr>
   \<and> specInfoDeferred (deliver (CaseStart exTest (exStart 110)) exOnce) ''p:a.test.js''
        = Some \<lparr> d_ident = 1, d_resolveCalls = 1 \<rparr>
   \<and> testCaseDeferred exOnce ''p:a.test.js:t1'' = Some \<lparr> d_ident = 2, d_resolveCalls = 1 \<rparr>
   \<and> lookupCase exOnce ''p:a.test.js'' ''p:a.test.js:t1'' \<noteq> None
   \<and> testCaseDeferred (deliver (CaseStart exTest (exStart 110)) exOnce) ''p:a.test.js:t1''
        = Some \<lparr> d_ident = 2, d_resolveCalls = 1 \<rparr>
   \<and> testCaseDeferred (deliver (CaseStart exOther (exStart 110)) exOnce) ''p:a.test.js:t1''
        = Some \<lparr> d_ident = 2, d_resolveCalls = 1 \<rparr>
   \<and> resultsDeferred exOnce ''p:a.test.js:t1'' = Some \<lparr> d_ident = 3, d_resolveCalls = 1 \<rparr>
   \<and> resultsDeferred (deliver (CaseStart exOther (exStart 110)) exOnce) ''p:a.test.js:t1''
        = Some \<lparr> d_ident = 3, d_resolveCalls = 1 \<rparr>
   \<and> (\<exists>s' g'. onTestCaseResult exTest (exResult ''passed'') exOnce = Inr s'
        \<and> resultsDeferred s' ''p:a.test.js:t1'' = Some g'
        \<and> d_resolveCalls g' = 1 \<and> 3 < d_ident g')"
proof -
  have S: "exOnce = run [RunStart 1, ReportDirCreated, FileStart exTest,
        CaseStart exTest (exStart 100), CaseResult exTest (exResult ''failed'')] (initial None)"
    by (simp add: exOnce_def exStarted_def)
  note t = keyed_gates_resolved_once [OF S,
      of "CaseStart exTest (exStart 110)" exTest "exResult ''passed''"]
  note u = keyed_gates_resolved_once [OF S,
      of "CaseStart exOther (exStart 110)" exTest "exResult ''passed''"]
  have sg: "specInfoDeferred exOnce ''p:a.test.js'' = Some \<lparr> d_ident = 1, d_resolveCalls = 1 \<rparr>"
    by (simp add: exOnce_def run_defs Let_def)
  have cg: "testCaseDeferred exOnce ''p:a.test.js:t1'' = Some \<lparr> d_ident = 2, d_resolveCalls = 1 \<rparr>"
    by (simp add: exOnce_def run_defs Let_def)
  have rg: "resultsDeferred exOnce ''p:a.test.js:t1'' = Some \<lparr> d_ident = 3, d_resolveCalls = 1 \<rparr>"
    by (simp add: exOnce_def run_defs Let_def)
  have rec: "lookupCase exOnce ''p:a.test.js'' ''p:a.test.js:t1'' \<noteq> None"
    by (simp add: exOnce_def run_defs Let_def)
  have pm: "projectBySpecMap exOnce ''a.test.js'' = Some ''p''"
    by (simp add: exOnce_def run_defs Let_def)
  have pm': "projectBySpecMap exOnce ''b.test.js'' = None"
    by (simp add: exOnce_def run_defs Let_def)
  have out: "\<exists>s'. onTestCaseResult exTest (exResult ''passed'') exOnce = Inr s'"
    by (simp add: exOnce_def run_defs Let_def)
  have a: "specInfoDeferred (deliver (CaseStart exTest (exStart 110)) exOnce) ''p:a.test.js''
        = Some \<lparr> d_ident = 1, d_resolveCalls = 1 \<rparr>"
    by (rule t [THEN conjunct2, THEN conjunct1, rule_format]) (simp add: sg)
  have key: "lookupCase exOnce
       (getSpecKey (projectBySpecMap exOnce (t_specName t)) (t_specName t)) ''p:a.test.js:t1'' \<noteq> None"
    if "CaseStart exTest (exStart 110) = CaseStart t i" for t i
  proof -
    from that have "t = exTest" by simp
    then show ?thesis using pm rec by (simp add: exTest_def getSpecKey_def template_def)
  qed
  have b: "testCaseDeferred (deliver (CaseStart exTest (exStart 110)) exOnce) ''p:a.test.js:t1''
        = Some \<lparr> d_ident = 2, d_resolveCalls = 1 \<rparr>"
  proof (rule t [THEN conjunct2, THEN conjunct2, THEN conjunct1, rule_format],
         intro conjI allI impI)
    show "testCaseDeferred exOnce ''p:a.test.js:t1'' = Some \<lparr> d_ident = 2, d_resolveCalls = 1 \<rparr>"
      by (rule cg)
  next
    fix t i
    assume "CaseStart exTest (exStart 110) = CaseStart t i \<and>
      ''p:a.test.js:t1'' =
        getTestCaseKey (projectBySpecMap exOnce (t_specName t)) (t_specName t) (i_testId i)"
    then show "lookupCase exOnce
       (getSpecKey (projectBySpecMap exOnce (t_specName t)) (t_specName t)) ''p:a.test.js:t1'' \<noteq> None"
      using key by blast
  qed
  have other: "''p:a.test.js:t1'' \<noteq>
       getTestCaseKey (projectBySpecMap exOnce (t_specName t)) (t_specName t) (i_testId i)"
    if "CaseStart exOther (exStart 110) = CaseStart t i" for t i
  proof -
    from that have "t = exOther" by simp
    then show ?thesis using pm' by (simp add: exOther_def getTestCaseKey_def template_def)
  qed
  have b': "testCaseDeferred (deliver (CaseStart exOther (exStart 110)) exOnce) ''p:a.test.js:t1''
        = Some \<lparr> d_ident = 2, d_resolveCalls = 1 \<rparr>"
  proof (rule u [THEN conjunct2, THEN conjunct2, THEN conjunct1, rule_format],
         intro conjI allI impI)
    show "testCaseDeferred exOnce ''p:a.test.js:t1'' = Some \<lparr> d_ident = 2, d_resolveCalls = 1 \<rparr>"
      by (rule cg)
  next
    fix t i
    assume "CaseStart exOther (exStart 110) = CaseStart t i \<and>
      ''p:a.test.js:t1'' =
        getTestCaseKey (projectBySpecMap exOnce (t_specName t)) (t_specName t) (i_testId i)"
    then show "lookupCase exOnce
       (getSpecKey (projectBySpecMap exOnce (t_specName t)) (t_specName t)) ''p:a.test.js:t1'' \<noteq> None"
      using other by blast
  qed
  have r': "resultsDeferred (deliver (CaseStart exOther (exStart 110)) exOnce) ''p:a.test.js:t1''
        = Some \<lparr> d_ident = 3, d_resolveCalls = 1 \<rparr>"
    by (rule u [THEN conjunct2, THEN conjunct2, THEN conjunct2, THEN conjunct1, rule_format])
       (simp add: rg)
  have tkey: "getTestCaseKey (projectBySpecMap exOnce (t_specName exTest)) (t_specName exTest)
                         (r_testId (exResult ''passed'')) = ''p:a.test.js:t1''"
    using pm by (simp add: exTest_def exResult_def getTestCaseKey_def template_def)
  from out obtain s' where o: "onTestCaseResult exTest (exResult ''passed'') exOnce = Inr s'"
    by blast
  from t [THEN conjunct2, THEN conjunct2, THEN conjunct2, THEN conjunct2, rule_format, OF o]
  obtain g' where g1: "resultsDeferred s' ''p:a.test.js:t1'' = Some g'"
    and g2: "d_resolveCalls g' = 1"
    and g3: "\<And>k g. resultsDeferred exOnce k = Some g \<Longrightarrow> d_ident g < d_ident g'"
    unfolding tkey by blast
  from g3 [OF rg] have "3 < d_ident g'" by simp
  with sg a cg rec b b' rg r' o g1 g2 show ?thesis by blast
qed

text \<open>
  The claim C4 as the spec words it fails on the second attempt of a test: the gate of
  the first result is replaced by a new object.
\<close>

theorem results_gate_recreated_counterexample:
  "map_option d_ident (resultsDeferred exOnce ''p:a.test.js:t1'') = Some 3
   \<and> map_option d_ident
       (resultsDeferred
          (run [CaseStart exTest (exStart 110), CaseResult exTest (exResult ''passed'')] exOnce)
          ''p:a.test.js:t1'') = Some 4"
  by (simp add: exOnce_def run_defs Let_def)

end
